theory Spec2Isabelle
  imports Complex_Main "HOL-Library.Word"
begin

section \<open>MATLAB arrays, build configuration and errors\<close>

text \<open>
  The MEX wrappers receive their arguments as \<open>mxArray\<close> values. An array has a class,
  a dimension vector (\<open>mxGetDimensions\<close>, whose length is \<open>mxGetNumberOfDimensions\<close>)
  and its element data (\<open>mxGetPr\<close>). Element values are idealised as reals. The one
  place where a wrapper itself converts a floating-point value, the spacings it stores as
  \<open>LSMLIB_REAL\<close>, is modelled with its rounding. C \<open>int\<close> values are mathematical
  integers, and the places where the C computation leaves the \<open>int\<close> range are modelled
  as undefined behaviour.
\<close>

datatype mxClassID = mxDOUBLE_CLASS | mxSINGLE_CLASS | mxOTHER_CLASS

record mxArray =
  classID :: mxClassID
  dims :: "int list"
  pr :: "real list"

text \<open>What MATLAB guarantees of every array it hands to a MEX function.\<close>

definition mxArray_ok :: "mxArray \<Rightarrow> bool" where
  "mxArray_ok a \<longleftrightarrow>
     2 \<le> length (dims a) \<and> list_all (\<lambda>d. 0 \<le> d) (dims a) \<and>
     int (length (pr a)) = prod_list (dims a)"

text \<open>\<open>LSMLIB_DOUBLE_PRECISION\<close> is defined or not when the library is built.\<close>

datatype precision = DOUBLE_PRECISION | SINGLE_PRECISION

fun LSMLIB_REAL_class :: "precision \<Rightarrow> mxClassID" where
  "LSMLIB_REAL_class DOUBLE_PRECISION = mxDOUBLE_CLASS"
| "LSMLIB_REAL_class SINGLE_PRECISION = mxSINGLE_CLASS"

text \<open>
  \<open>mexErrMsgTxt\<close> ends the MEX function with an error message. The second constructor
  marks executions that C leaves undefined (a read past the end of a buffer, a read of
  non-double data through the \<open>double\<close> pointer of \<open>mxGetPr\<close>, signed overflow).
\<close>

datatype error = mexErrMsgTxt string | undefined_behaviour string

fun precision_message :: "precision \<Rightarrow> string \<Rightarrow> string" where
  "precision_message DOUBLE_PRECISION name =
     ''Incompatible precision: LSMLIB built for double-precision but '' @ name @
     '' is single-precision''"
| "precision_message SINGLE_PRECISION name =
     ''Incompatible precision: LSMLIB built for single-precision but '' @ name @
     '' is double-precision''"

definition INT_MIN :: int where "INT_MIN = - (2 ^ 31)"
definition INT_MAX :: int where "INT_MAX = 2 ^ 31 - 1"

definition int_range :: "int \<Rightarrow> bool" where
  "int_range v \<longleftrightarrow> INT_MIN \<le> v \<and> v \<le> INT_MAX"

text \<open>C integer division truncates towards zero.\<close>

definition c_div :: "int \<Rightarrow> int \<Rightarrow> int" where
  "c_div a b = sgn a * sgn b * (\<bar>a\<bar> div \<bar>b\<bar>)"

text \<open>\<open>mxGetPr(a)[n]\<close>: the \<open>n\<close>-th element read through a pointer to double.\<close>

definition mxGetPr_at :: "mxArray \<Rightarrow> nat \<Rightarrow> real option" where
  "mxGetPr_at a n =
     (if classID a = mxDOUBLE_CLASS \<and> n < length (pr a) then Some (pr a ! n) else None)"

text \<open>The conversion of a double to \<open>int\<close> drops the fraction; out of range it is undefined.\<close>

definition double_to_int :: "real \<Rightarrow> int option" where
  "double_to_int x =
     (let t = (if 0 \<le> x then \<lfloor>x\<rfloor> else \<lceil>x\<rceil>)
      in if int_range t then Some t else None)"

text \<open>
  \<open>LSMLIB_REAL\<close> is \<open>double\<close> when \<open>LSMLIB_DOUBLE_PRECISION\<close> is defined and \<open>float\<close>
  otherwise (the configuration header is not among the sources; the two builds are the
  ones the precision messages of the wrappers name). A value of that type held by the
  wrapper is a finite number or an infinity.
  The assignment of a \<open>double\<close> to a \<open>float\<close> rounds to the nearest binary32 number,
  ties to the even significand: 24 significant bits, the exponent of the leading bit
  between -126 and 127 (below, the spacing of the subnormal numbers is used), and a
  result beyond \<open>FLT_MAX\<close> is an infinity.
\<close>

datatype LSMLIB_REAL = Finite real | PlusInfinity | MinusInfinity

definition pow2 :: "int \<Rightarrow> real" where
  "pow2 e = (if 0 \<le> e then 2 ^ nat e else 1 / 2 ^ nat (- e))"

text \<open>The exponent \<open>e\<close> of the leading bit of \<open>a\<close>: the greatest \<open>e \<le> 127\<close> with \<open>2\<^sup>e \<le> a\<close>, or -126.\<close>

fun float_exponent_from :: "nat \<Rightarrow> int \<Rightarrow> real \<Rightarrow> int" where
  "float_exponent_from 0 e a = e"
| "float_exponent_from (Suc n) e a =
     (if pow2 e \<le> a then e else float_exponent_from n (e - 1) a)"

definition float_exponent :: "real \<Rightarrow> int" where
  "float_exponent a = float_exponent_from 253 127 a"

definition round_half_even :: "real \<Rightarrow> int" where
  "round_half_even r =
     (let f = \<lfloor>r\<rfloor>; d = r - of_int f
      in if d < 1 / 2 then f else if 1 / 2 < d then f + 1
         else if even f then f else f + 1)"

definition FLT_MAX :: real where "FLT_MAX = (2 ^ 24 - 1) * 2 ^ 104"

definition double_to_float :: "real \<Rightarrow> LSMLIB_REAL" where
  "double_to_float x =
     (let ulp = pow2 (float_exponent \<bar>x\<bar> - 23);
          y = of_int (round_half_even (x / ulp)) * ulp
      in if FLT_MAX < y then PlusInfinity
         else if y < - FLT_MAX then MinusInfinity
         else Finite y)"

fun double_to_LSMLIB_REAL :: "precision \<Rightarrow> real \<Rightarrow> LSMLIB_REAL" where
  "double_to_LSMLIB_REAL DOUBLE_PRECISION x = Finite x"
| "double_to_LSMLIB_REAL SINGLE_PRECISION x = double_to_float x"

text \<open>\<open>mxCreateNumericArray\<close> returns an array of the given shape, filled with zeros.\<close>

definition mxCreateNumericArray :: "int list \<Rightarrow> mxClassID \<Rightarrow> mxArray" where
  "mxCreateNumericArray ds c =
     \<lparr>classID = c, dims = ds, pr = replicate (nat (prod_list ds)) 0\<rparr>"

section \<open>Index boxes and Fortran array layout\<close>

record box =
  ilo :: int
  ihi :: int
  jlo :: int
  jhi :: int
  klo :: int
  khi :: int

type_synonym cell = "int \<times> int \<times> int"

fun in_box :: "box \<Rightarrow> cell \<Rightarrow> bool" where
  "in_box b (i, j, k) \<longleftrightarrow>
     ilo b \<le> i \<and> i \<le> ihi b \<and> jlo b \<le> j \<and> j \<le> jhi b \<and> klo b \<le> k \<and> k \<le> khi b"

text \<open>The ghostbox of an array whose indices start at 1, as the wrappers set it up.\<close>

definition gb_of_dims :: "int list \<Rightarrow> box" where
  "gb_of_dims ds =
     \<lparr>ilo = 1, ihi = ds ! 0, jlo = 1, jhi = ds ! 1, klo = 1, khi = ds ! 2\<rparr>"

text \<open>The fillbox: the box moved inwards by the ghostcell width on each side.\<close>

definition shrink :: "box \<Rightarrow> int \<Rightarrow> box" where
  "shrink b g =
     \<lparr>ilo = ilo b + g, ihi = ihi b - g, jlo = jlo b + g, jhi = jhi b - g,
      klo = klo b + g, khi = khi b - g\<rparr>"

definition box_bounds :: "box \<Rightarrow> int list" where
  "box_bounds b = [ilo b, ihi b, jlo b, jhi b, klo b, khi b]"

definition box_dims :: "box \<Rightarrow> int list" where
  "box_dims b = [ihi b - ilo b + 1, jhi b - jlo b + 1, khi b - klo b + 1]"

section \<open>The state a MEX call leaves behind\<close>

datatype scratch = D1 | D2 | D3

text \<open>
  \<open>status\<close> is \<open>None\<close> for a normal return. \<open>plhs\<close> are the output arrays created so far,
  in the order of their \<open>plhs\<close> index; \<open>scratch_live\<close> the scratch buffers allocated and not
  yet freed; \<open>kernel_call\<close> the arguments of the call to the numerical kernel, when the
  wrapper got that far.
\<close>

record 'c outcome =
  status :: "error option"
  plhs :: "mxArray list"
  scratch_live :: "scratch list"
  kernel_call :: "'c option"

definition fail :: "error \<Rightarrow> 'c outcome" where
  "fail e = \<lparr>status = Some e, plhs = [], scratch_live = [], kernel_call = None\<rparr>"

definition mxFree :: "scratch \<Rightarrow> scratch list \<Rightarrow> scratch list" where
  "mxFree s live = removeAll s live"

section \<open>\<open>HJ_ENO3_3D.c\<close>: the third-order ENO derivative wrapper\<close>

text \<open>
  The arguments of the call to \<open>LSM3D_HJ_ENO3\<close>, in the order of the call. Output
  pointers are recorded as the \<open>plhs\<close> index of the array they point into
  (\<open>PHI_X_PLUS\<close> is \<open>plhs[0]\<close>, ..., \<open>PHI_Z_MINUS\<close> is \<open>plhs[5]\<close>).
\<close>

definition PHI_X_PLUS :: nat where "PHI_X_PLUS = 0"
definition PHI_Y_PLUS :: nat where "PHI_Y_PLUS = 1"
definition PHI_Z_PLUS :: nat where "PHI_Z_PLUS = 2"
definition PHI_X_MINUS :: nat where "PHI_X_MINUS = 3"
definition PHI_Y_MINUS :: nat where "PHI_Y_MINUS = 4"
definition PHI_Z_MINUS :: nat where "PHI_Z_MINUS = 5"

record eno3_args =
  eno3_plus_out :: "nat list"
  eno3_grad_phi_plus_gb :: box
  eno3_minus_out :: "nat list"
  eno3_grad_phi_minus_gb :: box
  eno3_phi :: "real list"
  eno3_phi_gb :: box
  eno3_D1_gb :: box
  eno3_D2_gb :: box
  eno3_D3_gb :: box
  eno3_fb :: box
  eno3_spacing :: "LSMLIB_REAL list"

definition HJ_ENO3_3D ::
  "precision \<Rightarrow> (scratch \<Rightarrow> bool) \<Rightarrow> int \<Rightarrow> mxArray list \<Rightarrow> eno3_args outcome" where
  "HJ_ENO3_3D prec mxMalloc nlhs prhs =
    (if length prhs \<noteq> 3 then fail (mexErrMsgTxt ''Three required input arguments.'')
     else if nlhs > 6 then fail (mexErrMsgTxt ''Too many output arguments.'')
     else
      let PHI = prhs ! 0; GHOSTCELL_WIDTH = prhs ! 1; DX = prhs ! 2 in
      if length (dims PHI) \<noteq> 3
      then fail (mexErrMsgTxt ''phi should be a 3 dimensional array.'')
      else if classID PHI \<noteq> LSMLIB_REAL_class prec
      then fail (mexErrMsgTxt (precision_message prec ''phi''))
      else
       case Option.bind (mxGetPr_at GHOSTCELL_WIDTH 0) double_to_int of
         None \<Rightarrow> fail (undefined_behaviour ''ghostcell_width'')
       | Some ghostcell_width \<Rightarrow>
       (case (mxGetPr_at DX 0, mxGetPr_at DX 1, mxGetPr_at DX 2) of
         (Some dX0, Some dX1, Some dX2) \<Rightarrow>
          let dX_meshgrid_order =
                [double_to_LSMLIB_REAL prec dX1, double_to_LSMLIB_REAL prec dX0,
                 double_to_LSMLIB_REAL prec dX2];
              phi_gb = gb_of_dims (dims PHI);
              D1_gb = phi_gb; D2_gb = phi_gb; D3_gb = phi_gb;
              live = filter mxMalloc [D1, D2, D3]
          in
          if \<not> mxMalloc D1 \<or> \<not> mxMalloc D2 \<or> \<not> mxMalloc D3
          then \<lparr>status = Some (mexErrMsgTxt
                   ''Unable to allocate memory for scratch data...aborting....''),
                plhs = [],
                scratch_live = fold mxFree (filter mxMalloc [D1, D2, D3]) live,
                kernel_call = None\<rparr>
          else
           let grad_phi_gb = phi_gb;
               data_array_dims_out = box_dims grad_phi_gb;
               created = replicate 6
                 (mxCreateNumericArray data_array_dims_out (LSMLIB_REAL_class prec));
               fb = shrink phi_gb ghostcell_width
           in
           if \<not> list_all int_range (box_bounds fb)
           then fail (undefined_behaviour ''signed integer overflow'')
           else
            \<lparr>status = None,
             plhs = created,
             scratch_live = fold mxFree [D1, D2, D3] live,
             kernel_call = Some
               \<lparr>eno3_plus_out = [PHI_Y_PLUS, PHI_X_PLUS, PHI_Z_PLUS],
                eno3_grad_phi_plus_gb = grad_phi_gb,
                eno3_minus_out = [PHI_Y_MINUS, PHI_X_MINUS, PHI_Z_MINUS],
                eno3_grad_phi_minus_gb = grad_phi_gb,
                eno3_phi = pr PHI,
                eno3_phi_gb = phi_gb,
                eno3_D1_gb = D1_gb, eno3_D2_gb = D2_gb, eno3_D3_gb = D3_gb,
                eno3_fb = fb,
                eno3_spacing = dX_meshgrid_order\<rparr>\<rparr>
       | _ \<Rightarrow> fail (undefined_behaviour ''dX'')))"

section \<open>\<open>COMPUTE_NORMAL_VELOCITY_TERM_FOR_LSE_RHS_3D.c\<close>: the normal-velocity RHS wrapper\<close>

text \<open>
  The inputs whose precision the wrapper checks, in the order of the checks: the
  \<open>prhs\<close> index and the name used in the message. \<open>GHOSTCELL_WIDTH\<close> (\<open>prhs[1]\<close>) is
  not among them.
\<close>

definition nv_checked_inputs :: "(nat \<times> string) list" where
  "nv_checked_inputs =
     [(0, ''phi''), (2, ''normal_velocity''),
      (3, ''phi_x_plus''), (4, ''phi_y_plus''), (5, ''phi_z_plus''),
      (6, ''phi_x_minus''), (7, ''phi_y_minus''), (8, ''phi_z_minus'')]"

text \<open>
  The shift of one axis of a ghostbox: when its upper bound differs from that of phi,
  both bounds move by half the difference, computed with C integer division.
\<close>

definition shift_axis :: "int \<Rightarrow> int \<times> int \<Rightarrow> int \<times> int" where
  "shift_axis hi_phi_gb b =
     (case b of (lo, hi) \<Rightarrow>
        if hi \<noteq> hi_phi_gb
        then let shift = c_div (hi_phi_gb - hi) 2 in (lo + shift, hi + shift)
        else (lo, hi))"

definition center_gb :: "box \<Rightarrow> box \<Rightarrow> box" where
  "center_gb phi_gb b =
     (let i = shift_axis (ihi phi_gb) (ilo b, ihi b);
          j = shift_axis (jhi phi_gb) (jlo b, jhi b);
          k = shift_axis (khi phi_gb) (klo b, khi b)
      in \<lparr>ilo = fst i, ihi = snd i, jlo = fst j, jhi = snd j, klo = fst k, khi = snd k\<rparr>)"

text \<open>The loop that stores 0.0 into each of the \<open>num_grid_cells\<close> elements of \<open>lse_rhs\<close>.\<close>

function zero_out :: "int \<Rightarrow> int \<Rightarrow> real list \<Rightarrow> real list" where
  "zero_out num_grid_cells i lse_rhs =
     (if i < num_grid_cells
      then zero_out num_grid_cells (i + 1) (lse_rhs[nat i := 0])
      else lse_rhs)"
  by pat_completeness auto
termination
  by (relation "measure (\<lambda>(n, i, a). nat (n - i))") auto

declare zero_out.simps [simp del]

text \<open>
  The arguments of the call to \<open>LSM3D_ADD_NORMAL_VEL_TERM_TO_LSE_RHS\<close>, in the order of
  the call. The output pointer is the data of \<open>plhs[0]\<close>; the gradient arrays are kept
  as the lists [x, y, z].
\<close>

record nv_args =
  nv_lse_rhs_gb :: box
  nv_phi_plus :: "real list list"
  nv_grad_phi_plus_gb :: box
  nv_phi_minus :: "real list list"
  nv_grad_phi_minus_gb :: box
  nv_vel_n :: "real list"
  nv_vel_gb :: box
  nv_fb :: box

definition COMPUTE_NORMAL_VELOCITY_TERM_FOR_LSE_RHS_3D ::
  "precision \<Rightarrow> int \<Rightarrow> mxArray list \<Rightarrow> nv_args outcome" where
  "COMPUTE_NORMAL_VELOCITY_TERM_FOR_LSE_RHS_3D prec nlhs prhs =
    (if length prhs \<noteq> 9 then fail (mexErrMsgTxt ''Nine input arguments required.'')
     else if nlhs > 1 then fail (mexErrMsgTxt ''Too many output arguments.'')
     else
      case find (\<lambda>(n, name). classID (prhs ! n) \<noteq> LSMLIB_REAL_class prec) nv_checked_inputs of
        Some (n, name) \<Rightarrow> fail (mexErrMsgTxt (precision_message prec name))
      | None \<Rightarrow>
      let PHI = prhs ! 0; GHOSTCELL_WIDTH = prhs ! 1; NORMAL_VELOCITY = prhs ! 2;
          PHI_X_PLUS = prhs ! 3; PHI_Y_PLUS = prhs ! 4; PHI_Z_PLUS = prhs ! 5;
          PHI_X_MINUS = prhs ! 6; PHI_Y_MINUS = prhs ! 7; PHI_Z_MINUS = prhs ! 8
      in
      if length (dims PHI) \<noteq> 3
      then fail (mexErrMsgTxt ''phi should be a 3 dimensional array.'')
      else if length (dims NORMAL_VELOCITY) < 3
      then fail (undefined_behaviour ''dimensions of normal_velocity'')
      else if length (dims PHI_X_PLUS) < 3
      then fail (undefined_behaviour ''dimensions of phi_x_plus'')
      else
       let phi_gb = gb_of_dims (dims PHI);
           vel_gb = center_gb phi_gb (gb_of_dims (dims NORMAL_VELOCITY));
           grad_phi_gb = center_gb phi_gb (gb_of_dims (dims PHI_X_PLUS));
           lse_rhs_gb = phi_gb;
           data_array_dims_out = box_dims lse_rhs_gb;
           LSE_RHS = mxCreateNumericArray data_array_dims_out (LSMLIB_REAL_class prec);
           num_grid_cells = data_array_dims_out ! 0 * data_array_dims_out ! 1
                            * data_array_dims_out ! 2
       in
       if \<not> (int_range (data_array_dims_out ! 0 * data_array_dims_out ! 1)
               \<and> int_range num_grid_cells)
       then fail (undefined_behaviour ''signed integer overflow'')
       else
        let lse_rhs = zero_out num_grid_cells 0 (pr LSE_RHS) in
        (case Option.bind (mxGetPr_at GHOSTCELL_WIDTH 0) double_to_int of
          None \<Rightarrow> fail (undefined_behaviour ''ghostcell_width'')
        | Some phi_ghostcell_width \<Rightarrow>
           let fb = shrink lse_rhs_gb phi_ghostcell_width in
           if \<not> list_all int_range (box_bounds fb)
           then fail (undefined_behaviour ''signed integer overflow'')
           else
            \<lparr>status = None,
             plhs = [LSE_RHS\<lparr>pr := lse_rhs\<rparr>],
             scratch_live = [],
             kernel_call = Some
               \<lparr>nv_lse_rhs_gb = lse_rhs_gb,
                nv_phi_plus = [pr PHI_X_PLUS, pr PHI_Y_PLUS, pr PHI_Z_PLUS],
                nv_grad_phi_plus_gb = grad_phi_gb,
                nv_phi_minus = [pr PHI_X_MINUS, pr PHI_Y_MINUS, pr PHI_Z_MINUS],
                nv_grad_phi_minus_gb = grad_phi_gb,
                nv_vel_n = pr NORMAL_VELOCITY,
                nv_vel_gb = vel_gb,
                nv_fb = fb\<rparr>\<rparr>))"

subsection \<open>The centring of a ghostbox, as the specification words it\<close>

text \<open>
  The specification's reading of the shift: an array with extents \<open>ds\<close>, indexed from 1,
  has both bounds of each axis moved by (phi extent - extent)/2.
\<close>

definition shifted_gb :: "int list \<Rightarrow> int list \<Rightarrow> box" where
  "shifted_gb phi_dims ds =
     \<lparr>ilo = 1 + c_div (phi_dims ! 0 - ds ! 0) 2, ihi = ds ! 0 + c_div (phi_dims ! 0 - ds ! 0) 2,
      jlo = 1 + c_div (phi_dims ! 1 - ds ! 1) 2, jhi = ds ! 1 + c_div (phi_dims ! 1 - ds ! 1) 2,
      klo = 1 + c_div (phi_dims ! 2 - ds ! 2) 2, khi = ds ! 2 + c_div (phi_dims ! 2 - ds ! 2) 2\<rparr>"

text \<open>A box sits symmetrically in another when its two margins agree on every axis.\<close>

definition symmetric_in :: "box \<Rightarrow> box \<Rightarrow> bool" where
  "symmetric_in outer b \<longleftrightarrow>
     ilo b - ilo outer = ihi outer - ihi b \<and>
     jlo b - jlo outer = jhi outer - jhi b \<and>
     klo b - klo outer = khi outer - khi b"

section \<open>Fortran kernels\<close>

text \<open>
  The numerical kernels are Fortran subroutines. An array argument is a flat buffer
  viewed through its ghostbox in column-major order. An access outside the declared
  bounds or past the end of the buffer is undefined.
\<close>

fun offset :: "box \<Rightarrow> cell \<Rightarrow> nat" where
  "offset b (i, j, k) =
     nat ((i - ilo b) + (ihi b - ilo b + 1) * ((j - jlo b) + (jhi b - jlo b + 1) * (k - klo b)))"

definition f77_read :: "'a list \<Rightarrow> box \<Rightarrow> cell \<Rightarrow> 'a option" where
  "f77_read a b c =
     (if in_box b c \<and> offset b c < length a then Some (a ! offset b c) else None)"

definition f77_write :: "'a list \<Rightarrow> box \<Rightarrow> cell \<Rightarrow> 'a \<Rightarrow> 'a list option" where
  "f77_write a b c v =
     (if in_box b c \<and> offset b c < length a then Some (a[offset b c := v]) else None)"

text \<open>The cells of a box in loop order: k outermost, i innermost.\<close>

definition cells :: "box \<Rightarrow> cell list" where
  "cells b =
     concat (map (\<lambda>k. concat (map (\<lambda>j. map (\<lambda>i. (i, j, k)) [ilo b..ihi b]) [jlo b..jhi b]))
       [klo b..khi b])"

text \<open>A loop whose body may fail: it stops at the first failure.\<close>

primrec for_each :: "('c \<Rightarrow> 's \<Rightarrow> error + 's) \<Rightarrow> 'c list \<Rightarrow> 's \<Rightarrow> error + 's" where
  "for_each body [] s = Inr s"
| "for_each body (c # cs) s =
     (case body c s of Inl e \<Rightarrow> Inl e | Inr s' \<Rightarrow> for_each body cs s')"

subsection \<open>The normal-velocity term on the fillbox\<close>

text \<open>
  Modelled from the spec: the subroutine \<open>LSM3D_ADD_NORMAL_VEL_TERM_TO_LSE_RHS\<close> is not
  among the sources. Following sections 4.3 and 6 it visits the cells of the fillbox
  and subtracts \<open>V_n |grad phi|\<close> from the right-hand side there, the norm being
  assembled from the one-sided derivatives: for a positive velocity from
  \<open>max(plus,0)\<^sup>2\<close> and \<open>min(minus,0)\<^sup>2\<close> per axis, summed and square-rooted, and
  symmetrically for a negative one. The two squares of an axis are combined by taking
  the larger.
\<close>

definition godunov_norm :: "real \<Rightarrow> real list \<Rightarrow> real list \<Rightarrow> real" where
  "godunov_norm vel_n phi_plus phi_minus =
     (if vel_n > 0
      then sqrt (sum_list (map2 (\<lambda>p m. max ((max p 0)\<^sup>2) ((min m 0)\<^sup>2)) phi_plus phi_minus))
      else if vel_n < 0
      then sqrt (sum_list (map2 (\<lambda>p m. max ((min p 0)\<^sup>2) ((max m 0)\<^sup>2)) phi_plus phi_minus))
      else 0)"

definition nv_cell :: "nv_args \<Rightarrow> cell \<Rightarrow> real list \<Rightarrow> error + real list" where
  "nv_cell a c lse_rhs =
     (case (f77_read (nv_vel_n a) (nv_vel_gb a) c,
            those (map (\<lambda>p. f77_read p (nv_grad_phi_plus_gb a) c) (nv_phi_plus a)),
            those (map (\<lambda>m. f77_read m (nv_grad_phi_minus_gb a) c) (nv_phi_minus a)),
            f77_read lse_rhs (nv_lse_rhs_gb a) c) of
        (Some v, Some phi_plus, Some phi_minus, Some r) \<Rightarrow>
          (case f77_write lse_rhs (nv_lse_rhs_gb a) c (r - v * godunov_norm v phi_plus phi_minus) of
             Some lse_rhs' \<Rightarrow> Inr lse_rhs'
           | None \<Rightarrow> Inl (undefined_behaviour ''array index out of bounds''))
      | _ \<Rightarrow> Inl (undefined_behaviour ''array index out of bounds''))"

definition LSM3D_ADD_NORMAL_VEL_TERM_TO_LSE_RHS :: "nv_args \<Rightarrow> real list \<Rightarrow> error + real list" where
  "LSM3D_ADD_NORMAL_VEL_TERM_TO_LSE_RHS a lse_rhs = for_each (nv_cell a) (cells (nv_fb a)) lse_rhs"

text \<open>
  The whole operation: the wrapper up to the kernel call, then the kernel on the data of
  \<open>plhs[0]\<close>. The result is the error, or the returned \<open>lse_rhs\<close> array.
\<close>

definition normal_velocity_rhs :: "precision \<Rightarrow> int \<Rightarrow> mxArray list \<Rightarrow> error + mxArray" where
  "normal_velocity_rhs prec nlhs prhs =
     (let r = COMPUTE_NORMAL_VELOCITY_TERM_FOR_LSE_RHS_3D prec nlhs prhs in
      case (status r, plhs r, kernel_call r) of
        (None, [LSE_RHS], Some a) \<Rightarrow>
          (case LSM3D_ADD_NORMAL_VEL_TERM_TO_LSE_RHS a (pr LSE_RHS) of
             Inl e \<Rightarrow> Inl e
           | Inr lse_rhs \<Rightarrow> Inr (LSE_RHS\<lparr>pr := lse_rhs\<rparr>))
      | (Some e, _, _) \<Rightarrow> Inl e
      | _ \<Rightarrow> Inl (undefined_behaviour ''no kernel call''))"

subsection \<open>The narrow-band (local) routines\<close>

text \<open>
  Modelled from the spec: \<open>lsm_level_set_evolution3d_local.h\<close> declares the local
  routines, their Fortran bodies are not among the sources. Following the header and
  section 4.3, a routine runs over the positions \<open>nlo_index..nhi_index\<close> of the index
  arrays, and at each listed point whose narrow-band tag is at most \<open>mark_fb\<close> it
  accumulates its term into \<open>lse_rhs\<close>. The routines differ in the term only, which is
  a function of the point here (\<open>None\<close> when it reads outside an input array). Index
  arrays are read from position 0.
\<close>

record local_args =
  lse_rhs_gb :: box
  index_x :: "int list"
  index_y :: "int list"
  index_z :: "int list"
  nlo_index :: int
  nhi_index :: int
  narrow_band :: "8 word list"
  nb_gb :: box
  mark_fb :: "8 word"

definition index_read :: "int list \<Rightarrow> int \<Rightarrow> int option" where
  "index_read xs l = (if 0 \<le> l \<and> l < int (length xs) then Some (xs ! nat l) else None)"

definition point :: "local_args \<Rightarrow> int \<Rightarrow> cell option" where
  "point a l =
     (case (index_read (index_x a) l, index_read (index_y a) l, index_read (index_z a) l) of
        (Some i, Some j, Some k) \<Rightarrow> Some (i, j, k)
      | _ \<Rightarrow> None)"

definition local_step ::
  "(cell \<Rightarrow> real option) \<Rightarrow> local_args \<Rightarrow> int \<Rightarrow> real list \<Rightarrow> error + real list" where
  "local_step contrib a l lse_rhs =
     (case point a l of
        None \<Rightarrow> Inl (undefined_behaviour ''array index out of bounds'')
      | Some c \<Rightarrow>
         (case f77_read (narrow_band a) (nb_gb a) c of
            None \<Rightarrow> Inl (undefined_behaviour ''array index out of bounds'')
          | Some tag \<Rightarrow>
             if tag \<le> mark_fb a
             then (case (contrib c, f77_read lse_rhs (lse_rhs_gb a) c) of
                     (Some t, Some r) \<Rightarrow> Inr (lse_rhs[offset (lse_rhs_gb a) c := r + t])
                   | _ \<Rightarrow> Inl (undefined_behaviour ''array index out of bounds''))
             else Inr lse_rhs))"

definition add_term_to_lse_rhs_local ::
  "(cell \<Rightarrow> real option) \<Rightarrow> local_args \<Rightarrow> real list \<Rightarrow> error + real list" where
  "add_term_to_lse_rhs_local contrib a lse_rhs =
     for_each (local_step contrib a) [nlo_index a..nhi_index a] lse_rhs"

text \<open>The advection term \<open>- vel . grad(phi)\<close>, from the arrays [x, y, z] of each.\<close>

definition advection_term ::
  "real list list \<Rightarrow> box \<Rightarrow> real list list \<Rightarrow> box \<Rightarrow> cell \<Rightarrow> real option" where
  "advection_term grad_phi grad_phi_gb vel vel_gb c =
     (case (those (map (\<lambda>p. f77_read p grad_phi_gb c) grad_phi),
            those (map (\<lambda>v. f77_read v vel_gb c) vel)) of
        (Some g, Some v) \<Rightarrow> Some (- sum_list (map2 (*) v g))
      | _ \<Rightarrow> None)"

definition LSM3D_ADD_ADVECTION_TERM_TO_LSE_RHS_LOCAL ::
  "real list list \<Rightarrow> box \<Rightarrow> real list list \<Rightarrow> box \<Rightarrow> local_args \<Rightarrow> real list
   \<Rightarrow> error + real list" where
  "LSM3D_ADD_ADVECTION_TERM_TO_LSE_RHS_LOCAL grad_phi grad_phi_gb vel vel_gb a lse_rhs =
     add_term_to_lse_rhs_local (advection_term grad_phi grad_phi_gb vel vel_gb) a lse_rhs"

section \<open>The fast marching engine\<close>

text \<open>
  Modelled from the spec: the fast marching engine is not among the sources (of its
  directory only the makefile of the example programs is). The definitions below follow
  section 4.2 of the specification, for a grid of any dimension.
  \<^item> A grid point is \<open>Unvisited\<close>, \<open>Trial\<close> or \<open>Known\<close>. The priority structure is the
    list \<open>heap\<close> of the \<open>Trial\<close> points in insertion order; the minimum is the first
    point of least value, which is the tie-break by insertion order.
  \<^item> The local solve takes along each axis the smaller value of the neighbours that are
    \<open>Known\<close> or \<open>Trial\<close>, and solves \<open>sum ((T - u) / dx)\<^sup>2 = 1\<close> over these axes. A root
    is kept only when it exceeds every value used, the smaller root first. When the
    discriminant is negative, or neither root is kept, the axis with the largest value
    is dropped and the rest is solved again.
  \<^item> A step of the main loop extracts the minimum, freezes it, and recomputes each
    neighbour that is not \<open>Known\<close>: an \<open>Unvisited\<close> one is inserted, a \<open>Trial\<close> one gets
    the new value when that is smaller (decrease-update).
  \<^item> The initial \<open>Known\<close> points with their values are an input, and their neighbours
    are seeded as \<open>Trial\<close> by the same update. How the initial values are interpolated
    from the input field, and the sign of the field, are not modelled.
  \<^item> The main loop runs at most the given number of steps; it stops before that when the
    heap is empty or the least value exceeds the cutoff. The field \<open>frozen\<close> records, in
    order, each point the main loop has frozen and the value it was frozen with.
\<close>

datatype point_state = Unvisited | Trial | Known

type_synonym gpoint = "int list"

record fmm_grid =
  g_lo :: "int list"
  g_hi :: "int list"
  g_dx :: "real list"

record fmm_state =
  pstate :: "gpoint \<Rightarrow> point_state"
  tval :: "gpoint \<Rightarrow> real"
  heap :: "gpoint list"
  frozen :: "(gpoint \<times> real) list"

text \<open>
  A point lies in the grid when each coordinate lies within the bounds. The neighbours of
  a point along axis \<open>a\<close> are the points one step below and above it that lie in the grid.
\<close>

definition in_grid :: "fmm_grid \<Rightarrow> gpoint \<Rightarrow> bool" where
  "in_grid g p \<longleftrightarrow> list_all2 (\<le>) (g_lo g) p \<and> list_all2 (\<le>) p (g_hi g)"

definition nbrs :: "fmm_grid \<Rightarrow> gpoint \<Rightarrow> nat \<Rightarrow> gpoint list" where
  "nbrs g p a = filter (in_grid g) [p[a := p ! a - 1], p[a := p ! a + 1]]"

definition all_nbrs :: "fmm_grid \<Rightarrow> gpoint \<Rightarrow> gpoint list" where
  "all_nbrs g p = concat (map (nbrs g p) [0..<length p])"

text \<open>
  The upwind value along axis \<open>a\<close>: the least value \<open>v\<close> among the neighbours that
  \<open>U\<close> admits, if there is one. The stencil pairs it with the spacing of the axis.
\<close>

definition upwind ::
  "fmm_grid \<Rightarrow> (gpoint \<Rightarrow> real) \<Rightarrow> (gpoint \<Rightarrow> bool) \<Rightarrow> gpoint \<Rightarrow> nat \<Rightarrow> real option" where
  "upwind g v U p a =
     (case map v (filter U (nbrs g p a)) of [] \<Rightarrow> None | w # ws \<Rightarrow> Some (fold min ws w))"

definition stencil_of ::
  "fmm_grid \<Rightarrow> (gpoint \<Rightarrow> real) \<Rightarrow> (gpoint \<Rightarrow> bool) \<Rightarrow> gpoint \<Rightarrow> (real \<times> real) list" where
  "stencil_of g v U p =
     concat (map (\<lambda>a. case upwind g v U p a of None \<Rightarrow> [] | Some u \<Rightarrow> [(u, g_dx g ! a)])
       [0..<length p])"

definition stencil :: "fmm_grid \<Rightarrow> fmm_state \<Rightarrow> gpoint \<Rightarrow> (real \<times> real) list" where
  "stencil g s p = stencil_of g (tval s) (\<lambda>q. pstate s q \<noteq> Unvisited) p"

text \<open>
  The quadratic of a stencil given with the largest value first. \<open>A T\<^sup>2 - 2 B T + C = 0\<close>
  is \<open>sum ((T - u) / h)\<^sup>2 = 1\<close> multiplied out.
\<close>

fun solve :: "(real \<times> real) list \<Rightarrow> real option" where
  "solve [] = None"
| "solve (x # xs) =
     (let A = (\<Sum>(u, h)\<leftarrow>x # xs. 1 / h\<^sup>2);
          B = (\<Sum>(u, h)\<leftarrow>x # xs. u / h\<^sup>2);
          C = (\<Sum>(u, h)\<leftarrow>x # xs. u\<^sup>2 / h\<^sup>2) - 1;
          D = B\<^sup>2 - A * C
      in if D < 0 then solve xs
         else case filter (\<lambda>T. list_all (\<lambda>(u, h). u < T) (x # xs))
                     [(B - sqrt D) / A, (B + sqrt D) / A] of
                [] \<Rightarrow> solve xs
              | T # _ \<Rightarrow> Some T)"

definition local_solve :: "fmm_grid \<Rightarrow> fmm_state \<Rightarrow> gpoint \<Rightarrow> real option" where
  "local_solve g s p = solve (sort_key (\<lambda>(u, h). - u) (stencil g s p))"

text \<open>Insert or decrease-update of one neighbour; a \<open>Known\<close> point is never revisited.\<close>

definition update_point :: "fmm_grid \<Rightarrow> gpoint \<Rightarrow> fmm_state \<Rightarrow> fmm_state" where
  "update_point g p s =
     (if pstate s p = Known then s
      else case local_solve g s p of
             None \<Rightarrow> s
           | Some T \<Rightarrow>
               if pstate s p = Unvisited
               then s\<lparr>pstate := (pstate s)(p := Trial), tval := (tval s)(p := T),
                      heap := heap s @ [p]\<rparr>
               else if T < tval s p then s\<lparr>tval := (tval s)(p := T)\<rparr>
               else s)"

definition update_neighbors :: "fmm_grid \<Rightarrow> gpoint \<Rightarrow> fmm_state \<Rightarrow> fmm_state" where
  "update_neighbors g x s = fold (update_point g) (all_nbrs g x) s"

text \<open>One step of the main loop: extract the minimum, freeze it, update its neighbours.\<close>

definition freeze_min :: "fmm_grid \<Rightarrow> fmm_state \<Rightarrow> fmm_state" where
  "freeze_min g s =
     (let x = arg_min_list (tval s) (heap s)
      in update_neighbors g x
           (s\<lparr>pstate := (pstate s)(x := Known), heap := remove1 x (heap s),
              frozen := frozen s @ [(x, tval s x)]\<rparr>))"

fun main_loop :: "fmm_grid \<Rightarrow> real option \<Rightarrow> nat \<Rightarrow> fmm_state \<Rightarrow> fmm_state" where
  "main_loop g cutoff 0 s = s"
| "main_loop g cutoff (Suc n) s =
     (if heap s = [] then s
      else if (case cutoff of None \<Rightarrow> False
               | Some c \<Rightarrow> c < tval s (arg_min_list (tval s) (heap s))) then s
      else main_loop g cutoff n (freeze_min g s))"

text \<open>The state before the main loop: the given points are \<open>Known\<close>, their neighbours seeded.\<close>

definition fmm_init :: "fmm_grid \<Rightarrow> (gpoint \<times> real) list \<Rightarrow> fmm_state" where
  "fmm_init g known0 =
     fold (update_neighbors g) (map fst known0)
       \<lparr>pstate = (\<lambda>p. if p \<in> fst ` set known0 then Known else Unvisited),
        tval = (\<lambda>p. case map_of known0 p of None \<Rightarrow> 0 | Some v \<Rightarrow> v),
        heap = [], frozen = []\<rparr>"

definition fast_marching ::
  "fmm_grid \<Rightarrow> real option \<Rightarrow> (gpoint \<times> real) list \<Rightarrow> nat \<Rightarrow> fmm_state" where
  "fast_marching g cutoff known0 n = main_loop g cutoff n (fmm_init g known0)"

subsection \<open>Quantities of the proof of the freezing order\<close>

text \<open>
  \<open>upwind_grad_sq S T\<close> is the squared upwind gradient that the value \<open>T\<close> has against
  the stencil \<open>S\<close>; the local solve returns a value where it is 1 on the axes it kept and
  at least 1 on the whole stencil. The invariants say: the heap holds exactly the
  \<open>Trial\<close> points; the value of a \<open>Trial\<close> point has squared gradient at most 1 against
  its \<open>Known\<close> neighbours; every neighbour of a \<open>Known\<close> point has been visited; no
  \<open>Trial\<close> value lies below a value already frozen. The predicate \<open>E\<close> excepts the point
  that is being frozen while its neighbours are still being updated.
\<close>

definition upwind_grad_sq :: "(real \<times> real) list \<Rightarrow> real \<Rightarrow> real" where
  "upwind_grad_sq S T = (\<Sum>(u, h)\<leftarrow>S. (max (T - u) 0 / h)\<^sup>2)"

definition axis_entry :: "fmm_grid \<Rightarrow> (gpoint \<Rightarrow> real) \<Rightarrow> (gpoint \<Rightarrow> bool) \<Rightarrow> gpoint \<Rightarrow> nat \<Rightarrow> (real \<times> real) list" where
  "axis_entry g v U p a = (case upwind g v U p a of None \<Rightarrow> [] | Some u \<Rightarrow> [(u, g_dx g ! a)])"

definition dx_ok :: "fmm_grid \<Rightarrow> bool" where
  "dx_ok g \<longleftrightarrow> length (g_dx g) = length (g_lo g) \<and> list_all (\<lambda>h. 0 < h) (g_dx g)"

definition kstencil :: "fmm_grid \<Rightarrow> fmm_state \<Rightarrow> (gpoint \<Rightarrow> bool) \<Rightarrow> gpoint \<Rightarrow> (real \<times> real) list" where
  "kstencil g s E p = stencil_of g (tval s) (\<lambda>q. pstate s q = Known \<and> \<not> E q) p"

definition struct_inv :: "fmm_grid \<Rightarrow> fmm_state \<Rightarrow> bool" where
  "struct_inv g s \<longleftrightarrow>
     set (heap s) = {p. pstate s p = Trial} \<and> distinct (heap s) \<and> (\<forall>p \<in> set (heap s). in_grid g p)"

definition trial_consistent :: "fmm_grid \<Rightarrow> (gpoint \<Rightarrow> bool) \<Rightarrow> fmm_state \<Rightarrow> bool" where
  "trial_consistent g E s \<longleftrightarrow> (\<forall>p. pstate s p = Trial \<longrightarrow> upwind_grad_sq (kstencil g s E p) (tval s p) \<le> 1)"

definition known_nbrs_visited :: "fmm_grid \<Rightarrow> (gpoint \<Rightarrow> bool) \<Rightarrow> fmm_state \<Rightarrow> bool" where
  "known_nbrs_visited g E s \<longleftrightarrow>
     (\<forall>q a p. pstate s q = Known \<and> \<not> E q \<and> a < length q \<and> p \<in> set (nbrs g q a)
        \<longrightarrow> pstate s p \<noteq> Unvisited)"

definition nbrs_settled :: "fmm_grid \<Rightarrow> (gpoint \<Rightarrow> bool) \<Rightarrow> gpoint set \<Rightarrow> fmm_state \<Rightarrow> bool" where
  "nbrs_settled g E D s \<longleftrightarrow>
     (\<forall>p \<in> D. pstate s p \<noteq> Unvisited \<and>
        (pstate s p = Trial \<longrightarrow> upwind_grad_sq (kstencil g s E p) (tval s p) \<le> 1))"

definition trial_above :: "real \<Rightarrow> fmm_state \<Rightarrow> bool" where
  "trial_above m s \<longleftrightarrow> (\<forall>p. pstate s p = Trial \<longrightarrow> m \<le> tval s p)"

definition known_frame :: "fmm_state \<Rightarrow> fmm_state \<Rightarrow> bool" where
  "known_frame s s' \<longleftrightarrow>
     (\<forall>q. (pstate s' q = Known) = (pstate s q = Known)) \<and>
     (\<forall>q. pstate s q = Known \<longrightarrow> tval s' q = tval s q) \<and>
     (\<forall>q. pstate s q \<noteq> Unvisited \<longrightarrow> pstate s' q \<noteq> Unvisited) \<and>
     frozen s' = frozen s"

definition fmm_inv :: "fmm_grid \<Rightarrow> fmm_state \<Rightarrow> bool" where
  "fmm_inv g s \<longleftrightarrow>
     struct_inv g s \<and> trial_consistent g (\<lambda>q. False) s \<and> known_nbrs_visited g (\<lambda>q. False) s \<and>
     sorted (map snd (frozen s)) \<and> (\<forall>v \<in> snd ` set (frozen s). trial_above v s)"

section \<open>Example inputs\<close>

definition scalar :: "real \<Rightarrow> mxArray" where
  "scalar x = \<lparr>classID = mxDOUBLE_CLASS, dims = [1, 1], pr = [x]\<rparr>"

definition spacing3 :: "real \<Rightarrow> real \<Rightarrow> real \<Rightarrow> mxArray" where
  "spacing3 dx dy dz = \<lparr>classID = mxDOUBLE_CLASS, dims = [1, 3], pr = [dx, dy, dz]\<rparr>"

definition const_field :: "mxClassID \<Rightarrow> int list \<Rightarrow> real \<Rightarrow> mxArray" where
  "const_field c ds v = \<lparr>classID = c, dims = ds, pr = replicate (nat (prod_list ds)) v\<rparr>"

fun alloc_ok :: "scratch \<Rightarrow> bool" where
  "alloc_ok s = True"

fun alloc_D3_fails :: "scratch \<Rightarrow> bool" where
  "alloc_D3_fails D3 = False"
| "alloc_D3_fails s = True"

text \<open>
  The nine inputs of the normal-velocity wrapper: phi, the ghostcell width, a velocity
  field of value 2, the three plus derivatives (all 0) and the three minus derivatives
  (-1 along x, 0 along y and z).
\<close>

definition nv_inputs ::
  "mxClassID \<Rightarrow> int list \<Rightarrow> int list \<Rightarrow> int list \<Rightarrow> int list \<Rightarrow> real \<Rightarrow> mxArray list" where
  "nv_inputs c phi_dims vel_dims plus_dims minus_dims g =
     [const_field c phi_dims 0, scalar g, const_field c vel_dims 2,
      const_field c plus_dims 0, const_field c plus_dims 0, const_field c plus_dims 0,
      const_field c minus_dims (- 1), const_field c minus_dims 0, const_field c minus_dims 0]"

definition box3 :: box where
  "box3 = \<lparr>ilo = 1, ihi = 3, jlo = 1, jhi = 3, klo = 1, khi = 3\<rparr>"

text \<open>
  A narrow band on a 3 x 3 x 3 box: the points (2,2,2), (1,1,1) and (3,3,3) are listed;
  only (2,2,2), at offset 13, carries a tag within the threshold 1.
\<close>

definition local_example :: local_args where
  "local_example =
     \<lparr>lse_rhs_gb = box3,
      index_x = [2, 1, 3], index_y = [2, 1, 3], index_z = [2, 1, 3],
      nlo_index = 0, nhi_index = 2,
      narrow_band = (replicate 27 5)[13 := 0], nb_gb = box3, mark_fb = 1\<rparr>"

text \<open>
  A 2 x 2 grid with spacings 1/3 and 1/4 whose two opposite corners are \<open>Known\<close> with the
  value 0; the other two corners then both get the value 1/5.
\<close>

definition grid2 :: fmm_grid where
  "grid2 = \<lparr>g_lo = [0, 0], g_hi = [1, 1], g_dx = [1 / 3, 1 / 4]\<rparr>"

definition known2 :: "(gpoint \<times> real) list" where
  "known2 = [([1, 0], 0), ([0, 1], 0)]"

section \<open>Lemmas about the wrappers\<close>

lemma nth3: "length ds = 3 \<Longrightarrow> [ds ! 0, ds ! 1, ds ! 2] = ds"
  by (cases ds; cases "tl ds"; cases "tl (tl ds)") auto

lemma box_dims_gb_of_dims: "length ds = 3 \<Longrightarrow> box_dims (gb_of_dims ds) = ds"
  using nth3 [of ds] by (simp add: box_dims_def gb_of_dims_def)

lemma free_allocated: "fold mxFree (filter al [D1, D2, D3]) (filter al [D1, D2, D3]) = []"
  by (simp add: mxFree_def)

lemma free_all: "fold mxFree [D1, D2, D3] (filter al [D1, D2, D3]) = []"
  by (simp add: mxFree_def)

lemma HJ_status_None:
  assumes "status (HJ_ENO3_3D prec mxMalloc nlhs prhs) = None"
  shows "length prhs = 3 \<and> nlhs \<le> 6 \<and> length (dims (prhs ! 0)) = 3 \<and>
         classID (prhs ! 0) = LSMLIB_REAL_class prec \<and>
         mxMalloc D1 \<and> mxMalloc D2 \<and> mxMalloc D3 \<and>
         (\<exists>g dX0 dX1 dX2.
            Option.bind (mxGetPr_at (prhs ! 1) 0) double_to_int = Some g \<and>
            mxGetPr_at (prhs ! 2) 0 = Some dX0 \<and> mxGetPr_at (prhs ! 2) 1 = Some dX1 \<and>
            mxGetPr_at (prhs ! 2) 2 = Some dX2 \<and>
            list_all int_range (box_bounds (shrink (gb_of_dims (dims (prhs ! 0))) g)))"
  using assms
  by (simp add: HJ_ENO3_3D_def Let_def fail_def split: option.splits if_splits)

lemma HJ_run:
  assumes "length prhs = 3" and "nlhs \<le> 6"
    and "length (dims (prhs ! 0)) = 3" and "classID (prhs ! 0) = LSMLIB_REAL_class prec"
    and "Option.bind (mxGetPr_at (prhs ! 1) 0) double_to_int = Some g"
    and "mxGetPr_at (prhs ! 2) 0 = Some dX0" and "mxGetPr_at (prhs ! 2) 1 = Some dX1"
    and "mxGetPr_at (prhs ! 2) 2 = Some dX2"
    and "mxMalloc D1" and "mxMalloc D2" and "mxMalloc D3"
    and "list_all int_range (box_bounds (shrink (gb_of_dims (dims (prhs ! 0))) g))"
  shows "HJ_ENO3_3D prec mxMalloc nlhs prhs =
     \<lparr>status = None,
      plhs = replicate 6 (mxCreateNumericArray (dims (prhs ! 0)) (LSMLIB_REAL_class prec)),
      scratch_live = [],
      kernel_call = Some
               \<lparr>eno3_plus_out = [PHI_Y_PLUS, PHI_X_PLUS, PHI_Z_PLUS],
                eno3_grad_phi_plus_gb = gb_of_dims (dims (prhs ! 0)),
                eno3_minus_out = [PHI_Y_MINUS, PHI_X_MINUS, PHI_Z_MINUS],
                eno3_grad_phi_minus_gb = gb_of_dims (dims (prhs ! 0)),
                eno3_phi = pr (prhs ! 0),
                eno3_phi_gb = gb_of_dims (dims (prhs ! 0)),
                eno3_D1_gb = gb_of_dims (dims (prhs ! 0)),
                eno3_D2_gb = gb_of_dims (dims (prhs ! 0)),
                eno3_D3_gb = gb_of_dims (dims (prhs ! 0)),
                eno3_fb = shrink (gb_of_dims (dims (prhs ! 0))) g,
                eno3_spacing =
                  [double_to_LSMLIB_REAL prec dX1, double_to_LSMLIB_REAL prec dX0,
                   double_to_LSMLIB_REAL prec dX2]\<rparr>\<rparr>"
  using assms by (simp add: HJ_ENO3_3D_def Let_def box_dims_gb_of_dims mxFree_def)

lemma HJ_kernel_call_status:
  "kernel_call (HJ_ENO3_3D prec mxMalloc nlhs prhs) = Some c \<Longrightarrow>
   status (HJ_ENO3_3D prec mxMalloc nlhs prhs) = None"
  by (auto simp: HJ_ENO3_3D_def Let_def fail_def split: option.splits if_splits)


lemma nv_find_None:
  "find (\<lambda>(n, name). classID (prhs ! n) \<noteq> c) nv_checked_inputs = None \<longleftrightarrow>
   (\<forall>n \<in> {0, 2, 3, 4, 5, 6, 7, 8}. classID (prhs ! n) = c)"
  by (simp add: find_None_iff nv_checked_inputs_def)

lemma NV_run:
  assumes "length prhs = 9" and "nlhs \<le> 1"
    and "\<forall>n \<in> {0, 2, 3, 4, 5, 6, 7, 8}. classID (prhs ! n) = LSMLIB_REAL_class prec"
    and "length (dims (prhs ! 0)) = 3"
    and "3 \<le> length (dims (prhs ! 2))" and "3 \<le> length (dims (prhs ! 3))"
    and "int_range (dims (prhs ! 0) ! 0 * dims (prhs ! 0) ! 1)"
    and "int_range (dims (prhs ! 0) ! 0 * dims (prhs ! 0) ! 1 * dims (prhs ! 0) ! 2)"
    and "Option.bind (mxGetPr_at (prhs ! 1) 0) double_to_int = Some g"
    and "list_all int_range (box_bounds (shrink (gb_of_dims (dims (prhs ! 0))) g))"
  shows "COMPUTE_NORMAL_VELOCITY_TERM_FOR_LSE_RHS_3D prec nlhs prhs =
     \<lparr>status = None,
      plhs = [\<lparr>classID = LSMLIB_REAL_class prec, dims = dims (prhs ! 0),
               pr = zero_out (prod_list (dims (prhs ! 0))) 0
                      (replicate (nat (prod_list (dims (prhs ! 0)))) 0)\<rparr>],
      scratch_live = [],
      kernel_call = Some
        \<lparr>nv_lse_rhs_gb = gb_of_dims (dims (prhs ! 0)),
         nv_phi_plus = [pr (prhs ! 3), pr (prhs ! 4), pr (prhs ! 5)],
         nv_grad_phi_plus_gb = center_gb (gb_of_dims (dims (prhs ! 0))) (gb_of_dims (dims (prhs ! 3))),
         nv_phi_minus = [pr (prhs ! 6), pr (prhs ! 7), pr (prhs ! 8)],
         nv_grad_phi_minus_gb = center_gb (gb_of_dims (dims (prhs ! 0))) (gb_of_dims (dims (prhs ! 3))),
         nv_vel_n = pr (prhs ! 2),
         nv_vel_gb = center_gb (gb_of_dims (dims (prhs ! 0))) (gb_of_dims (dims (prhs ! 2))),
         nv_fb = shrink (gb_of_dims (dims (prhs ! 0))) g\<rparr>\<rparr>"
proof -
  have d: "box_dims (gb_of_dims (dims (prhs ! 0))) = dims (prhs ! 0)"
    using assms(4) by (rule box_dims_gb_of_dims)
  have p: "prod_list (dims (prhs ! 0)) = dims (prhs ! 0) ! 0 * dims (prhs ! 0) ! 1 * dims (prhs ! 0) ! 2"
    using nth3 [OF assms(4)] by (metis mult.assoc mult.right_neutral prod_list.Cons prod_list.Nil)
  have f: "find (\<lambda>(n, name). classID (prhs ! n) \<noteq> LSMLIB_REAL_class prec) nv_checked_inputs = None"
    using assms(3) by (simp only: nv_find_None)
  show ?thesis
    unfolding COMPUTE_NORMAL_VELOCITY_TERM_FOR_LSE_RHS_3D_def f Let_def d
    using assms(1,2,4-10) by (simp add: mxCreateNumericArray_def p)
qed

lemma NV_status_None:
  assumes "status (COMPUTE_NORMAL_VELOCITY_TERM_FOR_LSE_RHS_3D prec nlhs prhs) = None"
  shows "length prhs = 9 \<and> nlhs \<le> 1 \<and>
    (\<forall>n \<in> {0, 2, 3, 4, 5, 6, 7, 8}. classID (prhs ! n) = LSMLIB_REAL_class prec) \<and>
    length (dims (prhs ! 0)) = 3 \<and>
    3 \<le> length (dims (prhs ! 2)) \<and> 3 \<le> length (dims (prhs ! 3)) \<and>
    int_range (dims (prhs ! 0) ! 0 * dims (prhs ! 0) ! 1) \<and>
    int_range (dims (prhs ! 0) ! 0 * dims (prhs ! 0) ! 1 * dims (prhs ! 0) ! 2) \<and>
    (\<exists>g. Option.bind (mxGetPr_at (prhs ! 1) 0) double_to_int = Some g \<and>
         list_all int_range (box_bounds (shrink (gb_of_dims (dims (prhs ! 0))) g)))"
proof -
  have f: "find (\<lambda>(n, name). classID (prhs ! n) \<noteq> LSMLIB_REAL_class prec) nv_checked_inputs = None"
    using assms
    by (auto simp: COMPUTE_NORMAL_VELOCITY_TERM_FOR_LSE_RHS_3D_def fail_def
        split: if_splits option.splits)
  have c: "\<forall>n \<in> {0, 2, 3, 4, 5, 6, 7, 8}. classID (prhs ! n) = LSMLIB_REAL_class prec"
    using f by (simp only: nv_find_None)
  have l: "length prhs = 9 \<and> nlhs \<le> 1 \<and> length (dims (prhs ! 0)) = 3"
    using assms
    by (auto simp: COMPUTE_NORMAL_VELOCITY_TERM_FOR_LSE_RHS_3D_def fail_def Let_def
        split: if_splits option.splits)
  then have d: "box_dims (gb_of_dims (dims (prhs ! 0))) = dims (prhs ! 0)"
    by (simp add: box_dims_gb_of_dims)
  show ?thesis
    using assms c l unfolding COMPUTE_NORMAL_VELOCITY_TERM_FOR_LSE_RHS_3D_def f Let_def d
    by (simp add: fail_def split: if_splits option.splits)
qed

lemma NV_kernel_call_status:
  "kernel_call (COMPUTE_NORMAL_VELOCITY_TERM_FOR_LSE_RHS_3D prec nlhs prhs) = Some c \<Longrightarrow>
   status (COMPUTE_NORMAL_VELOCITY_TERM_FOR_LSE_RHS_3D prec nlhs prhs) = None"
  by (auto simp: COMPUTE_NORMAL_VELOCITY_TERM_FOR_LSE_RHS_3D_def Let_def fail_def
      split: option.splits if_splits)

section \<open>Lemmas about array layout and loops\<close>

lemma mixed_radix:
  fixes a a' n x x' :: int
  assumes "0 \<le> a" "a < n" "0 \<le> a'" "a' < n" "a + n * x = a' + n * x'"
  shows "a = a' \<and> x = x'"
proof -
  have "(a + n * x) mod n = a" using assms(1,2) by simp
  moreover have "(a' + n * x') mod n = a'" using assms(3,4) by simp
  ultimately have aa: "a = a'" using assms(5) by simp
  then have "n * x = n * x'" using assms(5) by simp
  moreover have "n \<noteq> 0" using assms(1,2) by auto
  ultimately show ?thesis using aa by simp
qed

lemma offset_inj:
  assumes "in_box b c" and "in_box b c'" and "offset b c = offset b c'"
  shows "c = c'"
proof -
  obtain i j k where c: "c = (i, j, k)" by (cases c) auto
  obtain i' j' k' where c': "c' = (i', j', k')" by (cases c') auto
  define ni where "ni = ihi b - ilo b + 1"
  define nj where "nj = jhi b - jlo b + 1"
  have r: "0 \<le> i - ilo b" "i - ilo b < ni" "0 \<le> j - jlo b" "j - jlo b < nj" "0 \<le> k - klo b"
    "0 \<le> i' - ilo b" "i' - ilo b < ni" "0 \<le> j' - jlo b" "j' - jlo b < nj" "0 \<le> k' - klo b"
    using assms(1,2) by (auto simp: c c' ni_def nj_def)
  have nn: "0 \<le> (j - jlo b) + nj * (k - klo b)" "0 \<le> (j' - jlo b) + nj * (k' - klo b)"
    using r by auto
  have nn2: "0 \<le> (i - ilo b) + ni * ((j - jlo b) + nj * (k - klo b))"
     "0 \<le> (i' - ilo b) + ni * ((j' - jlo b) + nj * (k' - klo b))"
    using r nn by auto
  have "(i - ilo b) + ni * ((j - jlo b) + nj * (k - klo b))
      = (i' - ilo b) + ni * ((j' - jlo b) + nj * (k' - klo b))"
    using assms(3) nn2 unfolding c c' offset.simps ni_def [symmetric] nj_def [symmetric]
    by (metis nat_eq_iff)
  from mixed_radix [OF r(1,2,6,7) this]
  have 1: "i - ilo b = i' - ilo b" and 2: "(j - jlo b) + nj * (k - klo b) = (j' - jlo b) + nj * (k' - klo b)"
    by auto
  from mixed_radix [OF r(3,4,8,9) 2] have "j - jlo b = j' - jlo b" "k - klo b = k' - klo b" by auto
  with 1 show ?thesis by (simp add: c c')
qed

lemma in_cells: "c \<in> set (cells b) \<longleftrightarrow> in_box b c"
  by (cases c) (auto simp: cells_def image_iff)

lemma zero_out_length: "length (zero_out n i xs) = length xs"
proof (induction n i xs rule: zero_out.induct)
  case (1 n i xs)
  then show ?case by (cases "i < n") (simp_all add: zero_out.simps [of n i xs])
qed

lemma zero_out_zero:
  "0 \<le> i \<Longrightarrow> nat i \<le> m \<Longrightarrow> int m < n \<Longrightarrow> m < length xs \<Longrightarrow> zero_out n i xs ! m = 0"
proof (induction n i xs arbitrary: rule: zero_out.induct)
  case (1 n i xs)
  show ?case
  proof (cases "nat i = m")
    case True
    have keep: "\<And>j ys. i < j \<Longrightarrow> m < length ys \<Longrightarrow> ys ! m = 0 \<Longrightarrow> zero_out n j ys ! m = 0"
    proof -
      fix j ys show "i < j \<Longrightarrow> m < length ys \<Longrightarrow> ys ! m = 0 \<Longrightarrow> zero_out n j ys ! m = 0"
      proof (induction n j ys rule: zero_out.induct)
        case (1 n' j ys)
        show ?case
        proof (cases "j < n'")
          case T: True
          have "nat j \<noteq> m" using "1.prems"(1) True "1.prems" \<open>0 \<le> i\<close> by auto
          then have "(ys[nat j := 0]) ! m = 0" using "1.prems" by simp
          with "1.IH" [OF T] "1.prems" T show ?thesis by (simp add: zero_out.simps [of n' j ys])
        next
          case False
          then show ?thesis using "1.prems" by (simp add: zero_out.simps [of n' j ys])
        qed
      qed
    qed
    have "i < n" using "1.prems" by auto
    then have "zero_out n i xs = zero_out n (i + 1) (xs[nat i := 0])"
      by (simp add: zero_out.simps [of n i xs])
    moreover have "zero_out n (i + 1) (xs[nat i := 0]) ! m = 0"
      using keep [of "i + 1" "xs[nat i := 0]"] True "1.prems" by simp
    ultimately show ?thesis by simp
  next
    case False
    have lt: "i < n" using "1.prems" by auto
    have "zero_out n (i + 1) (xs[nat i := 0]) ! m = 0"
      using "1.IH" [OF lt] False "1.prems" by auto
    then show ?thesis using lt by (simp add: zero_out.simps [of n i xs])
  qed
qed

lemma for_each_frame:
  assumes "for_each body cs s = Inr s'"
    and "\<And>c t t'. c \<in> set cs \<Longrightarrow> body c t = Inr t' \<Longrightarrow>
           length t' = length t \<and> (\<forall>n. (G c \<longrightarrow> n \<noteq> W c) \<longrightarrow> t' ! n = t ! n)"
  shows "length s' = length s \<and> (\<forall>n. (\<forall>c \<in> set cs. G c \<longrightarrow> n \<noteq> W c) \<longrightarrow> s' ! n = s ! n)"
  using assms
proof (induction cs arbitrary: s)
  case Nil
  then show ?case by simp
next
  case (Cons c cs)
  from Cons.prems(1) obtain t where t: "body c s = Inr t" and rest: "for_each body cs t = Inr s'"
    by (auto split: sum.splits)
  have step: "length t = length s \<and> (\<forall>n. (G c \<longrightarrow> n \<noteq> W c) \<longrightarrow> t ! n = s ! n)"
    using Cons.prems(2) [of c s t] t by simp
  have ih: "length s' = length t \<and> (\<forall>n. (\<forall>c \<in> set cs. G c \<longrightarrow> n \<noteq> W c) \<longrightarrow> s' ! n = t ! n)"
  proof (rule Cons.IH [OF rest])
    fix c' t1 t2 assume "c' \<in> set cs" and "body c' t1 = Inr t2"
    then show "length t2 = length t1 \<and> (\<forall>n. (G c' \<longrightarrow> n \<noteq> W c') \<longrightarrow> t2 ! n = t1 ! n)"
      using Cons.prems(2) [of c' t1 t2] by simp
  qed
  show ?case using step ih by auto
qed

lemma nv_cell_frame:
  assumes "nv_cell a c t = Inr t'"
  shows "length t' = length t \<and>
         (\<forall>n. (in_box (nv_lse_rhs_gb a) c \<longrightarrow> n \<noteq> offset (nv_lse_rhs_gb a) c) \<longrightarrow> t' ! n = t ! n)"
  using assms
  by (auto simp: nv_cell_def f77_write_def f77_read_def split: option.splits if_splits)

lemma nv_kernel_frame:
  assumes "LSM3D_ADD_NORMAL_VEL_TERM_TO_LSE_RHS a lse_rhs = Inr out"
    and "in_box (nv_lse_rhs_gb a) c" and "\<not> in_box (nv_fb a) c"
  shows "length out = length lse_rhs \<and>
         out ! offset (nv_lse_rhs_gb a) c = lse_rhs ! offset (nv_lse_rhs_gb a) c"
proof -
  have fr: "length out = length lse_rhs \<and>
     (\<forall>n. (\<forall>c' \<in> set (cells (nv_fb a)). in_box (nv_lse_rhs_gb a) c' \<longrightarrow> n \<noteq> offset (nv_lse_rhs_gb a) c')
        \<longrightarrow> out ! n = lse_rhs ! n)"
    using assms(1) unfolding LSM3D_ADD_NORMAL_VEL_TERM_TO_LSE_RHS_def
    by (rule for_each_frame) (rule nv_cell_frame)
  have "\<forall>c' \<in> set (cells (nv_fb a)). in_box (nv_lse_rhs_gb a) c' \<longrightarrow>
          offset (nv_lse_rhs_gb a) c \<noteq> offset (nv_lse_rhs_gb a) c'"
    using assms(2,3) offset_inj [of "nv_lse_rhs_gb a" c] by (auto simp: in_cells)
  with fr show ?thesis by blast
qed


lemma local_step_frame:
  assumes "local_step contrib a l t = Inr t'"
  shows "length t' = length t \<and>
     (\<forall>n. ((\<exists>c tag. point a l = Some c \<and> in_box (lse_rhs_gb a) c \<and>
                f77_read (narrow_band a) (nb_gb a) c = Some tag \<and> tag \<le> mark_fb a)
            \<longrightarrow> n \<noteq> offset (lse_rhs_gb a) (the (point a l))) \<longrightarrow> t' ! n = t ! n)"
proof -
  from assms obtain c where c: "point a l = Some c"
    by (auto simp: local_step_def split: option.splits)
  from assms c obtain tag where tag: "f77_read (narrow_band a) (nb_gb a) c = Some tag"
    by (auto simp: local_step_def split: option.splits)
  show ?thesis
  proof (cases "tag \<le> mark_fb a")
    case False
    then have "t' = t" using assms c tag by (simp add: local_step_def)
    then show ?thesis by simp
  next
    case True
    from assms c tag True obtain v r where r: "f77_read t (lse_rhs_gb a) c = Some r"
      and t': "t' = t[offset (lse_rhs_gb a) c := v]"
      by (auto simp: local_step_def split: option.splits)
    from r have "in_box (lse_rhs_gb a) c" by (simp add: f77_read_def split: if_splits)
    then show ?thesis using c tag True t' by auto
  qed
qed

lemma offset_bound:
  assumes "in_box b c"
  shows "int (offset b c) < prod_list (box_dims b)"
proof -
  obtain i j k where c: "c = (i, j, k)" by (cases c) auto
  define ni where "ni = ihi b - ilo b + 1"
  define nj where "nj = jhi b - jlo b + 1"
  define nk where "nk = khi b - klo b + 1"
  define x where "x = i - ilo b"
  define y where "y = j - jlo b"
  define z where "z = k - klo b"
  have r: "0 \<le> x" "x < ni" "0 \<le> y" "y < nj" "0 \<le> z" "z < nk"
    using assms by (auto simp: c ni_def nj_def nk_def x_def y_def z_def)
  have "nj * z \<le> nj * (nk - 1)" using r by (intro mult_left_mono) auto
  then have yz: "y + nj * z \<le> nj * nk - 1" using r by (simp add: algebra_simps)
  have nyz: "0 \<le> y + nj * z" using r by simp
  have "ni * (y + nj * z) \<le> ni * (nj * nk - 1)" using yz r by (intro mult_left_mono) auto
  then have "x + ni * (y + nj * z) < ni * nj * nk" using r by (simp add: algebra_simps)
  moreover have "0 \<le> x + ni * (y + nj * z)" using r nyz by simp
  ultimately show ?thesis
    by (simp add: c box_dims_def ni_def nj_def nk_def x_def y_def z_def)
qed

lemma zero_out_replicate: "zero_out n i (replicate k 0) = replicate k 0"
proof (induction n i "replicate k (0::real)" rule: zero_out.induct)
  case (1 n i)
  have same: "(replicate k (0::real))[nat i := 0] = replicate k 0"
    by (cases "nat i < k") (auto simp: list_eq_iff_nth_eq nth_list_update)
  show ?case
  proof (cases "i < n")
    case True
    with 1 same show ?thesis by (simp add: zero_out.simps [of n i "replicate k 0"])
  next
    case False
    then show ?thesis by (simp add: zero_out.simps [of n i "replicate k 0"])
  qed
qed

section \<open>Lemmas about the shift of a ghostbox\<close>

lemma c_div_2_even: "2 * c_div d 2 = d \<longleftrightarrow> even d"
proof (cases "0 \<le> d")
  case True
  then have "c_div d 2 = d div 2" by (simp add: c_div_def sgn_if)
  then show ?thesis by presburger
next
  case False
  then have "c_div d 2 = - ((- d) div 2)" by (simp add: c_div_def sgn_if)
  then show ?thesis by presburger
qed

lemma c_div_0: "c_div 0 2 = 0"
  by (simp add: c_div_def)

lemma center_gb_shifted:
  "center_gb (gb_of_dims P) (gb_of_dims V) = shifted_gb P V"
  by (simp add: center_gb_def shift_axis_def shifted_gb_def gb_of_dims_def Let_def c_div_0)

lemma symmetric_shifted:
  "symmetric_in (gb_of_dims P) (shifted_gb P V) \<longleftrightarrow>
     even (P ! 0 - V ! 0) \<and> even (P ! 1 - V ! 1) \<and> even (P ! 2 - V ! 2)"
proof -
  have "\<And>p v :: int. (1 + c_div (p - v) 2 - 1 = p - (v + c_div (p - v) 2)) \<longleftrightarrow> even (p - v)"
    using c_div_2_even by (smt (verit, best))
  then show ?thesis
    by (simp add: symmetric_in_def shifted_gb_def gb_of_dims_def)
qed

section \<open>Lemmas about the precision checks\<close>






section \<open>Lemmas about the fast marching order\<close>

lemma quad_expand:
  fixes T :: real and S :: "(real \<times> real) list"
  shows "(\<Sum>(u, h)\<leftarrow>S. ((T - u) / h)\<^sup>2) =
     (\<Sum>(u, h)\<leftarrow>S. 1 / h\<^sup>2) * T\<^sup>2 - 2 * (\<Sum>(u, h)\<leftarrow>S. u / h\<^sup>2) * T + (\<Sum>(u, h)\<leftarrow>S. u\<^sup>2 / h\<^sup>2)"
proof (induction S)
  case Nil
  then show ?case by simp
next
  case (Cons x S)
  obtain u h where x: "x = (u, h)" by (cases x)
  have "((T - u) / h)\<^sup>2 = 1 / h\<^sup>2 * T\<^sup>2 - 2 * (u / h\<^sup>2) * T + u\<^sup>2 / h\<^sup>2"
    by (cases "h = 0") (simp_all add: power2_eq_square field_simps)
  with Cons show ?case by (simp add: x algebra_simps)
qed

lemma upwind_grad_sq_above: "list_all (\<lambda>(u, h). u \<le> T) S \<Longrightarrow> upwind_grad_sq S T = (\<Sum>(u, h)\<leftarrow>S. ((T - u) / h)\<^sup>2)"
  by (induction S) (auto simp: upwind_grad_sq_def max_def)

lemma A_pos:
  fixes S :: "(real \<times> real) list"
  shows "S \<noteq> [] \<Longrightarrow> list_all (\<lambda>(u, h). 0 < h) S \<Longrightarrow> 0 < (\<Sum>(u, h)\<leftarrow>S. 1 / h\<^sup>2)"
proof (induction S)
  case Nil then show ?case by simp
next
  case (Cons x S)
  obtain u h where x: "x = (u, h)" by (cases x)
  have "0 < 1 / h\<^sup>2" using Cons.prems by (simp add: x)
  moreover have "0 \<le> (\<Sum>(u, h)\<leftarrow>S. 1 / h\<^sup>2)"
    by (rule sum_list_nonneg) auto
  ultimately have "0 < 1 / h\<^sup>2 + (\<Sum>(u, h)\<leftarrow>S. 1 / h\<^sup>2)" by (rule add_pos_nonneg)
  then show ?case by (simp add: x)
qed

lemma root_is_root:
  fixes A B C :: real
  assumes "0 < A" "0 \<le> B\<^sup>2 - A * C" "T = (B - sqrt (B\<^sup>2 - A * C)) / A \<or> T = (B + sqrt (B\<^sup>2 - A * C)) / A"
  shows "A * T\<^sup>2 - 2 * B * T + C = 0"
proof -
  let ?D = "B\<^sup>2 - A * C"
  have s: "(sqrt ?D)\<^sup>2 = ?D" using assms(2) by simp
  have "A * (A * T\<^sup>2 - 2 * B * T + C) = (A * T - B)\<^sup>2 - ?D"
    by (simp add: power2_eq_square algebra_simps)
  moreover have "(A * T - B)\<^sup>2 = ?D"
  proof -
    have "A * T - B = - sqrt ?D \<or> A * T - B = sqrt ?D"
      using assms(1,3) by (auto simp: field_simps)
    then show ?thesis using s by auto
  qed
  ultimately have "A * (A * T\<^sup>2 - 2 * B * T + C) = 0" by simp
  with assms(1) show ?thesis by simp
qed

lemma negative_between_roots:
  fixes A B C x :: real
  assumes "0 < A" "A * x\<^sup>2 - 2 * B * x + C < 0"
  shows "0 < B\<^sup>2 - A * C \<and> x < (B + sqrt (B\<^sup>2 - A * C)) / A"
proof -
  let ?D = "B\<^sup>2 - A * C"
  have "A * (A * x\<^sup>2 - 2 * B * x + C) = (A * x - B)\<^sup>2 - ?D"
    by (simp add: power2_eq_square algebra_simps)
  moreover have "A * (A * x\<^sup>2 - 2 * B * x + C) < 0"
    using assms by (simp add: mult_pos_neg)
  ultimately have lt: "(A * x - B)\<^sup>2 < ?D" by simp
  then have D: "0 < ?D" by (smt (verit) zero_le_power2)
  have "\<bar>A * x - B\<bar> < sqrt ?D"
    using lt by (metis real_sqrt_abs real_sqrt_less_iff)
  then have "A * x < B + sqrt ?D" by linarith
  then have "x < (B + sqrt ?D) / A" using assms(1) by (simp add: field_simps)
  with D show ?thesis by simp
qed

lemma upwind_grad_sq_Cons: "upwind_grad_sq ((u, h) # S) T = (max (T - u) 0 / h)\<^sup>2 + upwind_grad_sq S T"
  by (simp add: upwind_grad_sq_def)

lemma upwind_grad_sq_nonneg: "0 \<le> upwind_grad_sq S T"
  unfolding upwind_grad_sq_def by (rule sum_list_nonneg) auto

lemma upwind_grad_sq_mono: "T1 \<le> T2 \<Longrightarrow> upwind_grad_sq S T1 \<le> upwind_grad_sq S T2"
proof (induction S)
  case Nil
  then show ?case by (simp add: upwind_grad_sq_def)
next
  case (Cons x S)
  obtain u h where x: "x = (u, h)" by (cases x)
  have "\<bar>max (T1 - u) 0 / h\<bar> \<le> \<bar>max (T2 - u) 0 / h\<bar>"
    using Cons.prems by (simp add: abs_divide divide_right_mono max_def)
  then have "(max (T1 - u) 0 / h)\<^sup>2 \<le> (max (T2 - u) 0 / h)\<^sup>2"
    by (rule abs_le_square_iff [THEN iffD1])
  with Cons show ?case by (simp add: x upwind_grad_sq_Cons)
qed

lemma upwind_grad_sq_strict: "T1 < T2 \<Longrightarrow> 0 < upwind_grad_sq S T1 \<Longrightarrow> upwind_grad_sq S T1 < upwind_grad_sq S T2"
proof (induction S)
  case Nil
  then show ?case by (simp add: upwind_grad_sq_def)
next
  case (Cons x S)
  obtain u h where x: "x = (u, h)" by (cases x)
  have le: "(max (T1 - u) 0 / h)\<^sup>2 \<le> (max (T2 - u) 0 / h)\<^sup>2"
    using upwind_grad_sq_mono [of T1 T2 "[(u, h)]"] Cons.prems(1) by (simp add: upwind_grad_sq_def)
  have rest: "upwind_grad_sq S T1 \<le> upwind_grad_sq S T2" using Cons.prems(1) by (simp add: upwind_grad_sq_mono)
  show ?case
  proof (cases "0 < (max (T1 - u) 0 / h)\<^sup>2")
    case True
    then have h: "h \<noteq> 0" and gt: "u < T1" by (auto simp: max_def split: if_splits)
    have "\<bar>max (T1 - u) 0 / h\<bar> < \<bar>max (T2 - u) 0 / h\<bar>"
      using Cons.prems(1) h gt by (simp add: abs_divide divide_strict_right_mono max_def)
    then have "(max (T1 - u) 0 / h)\<^sup>2 < (max (T2 - u) 0 / h)\<^sup>2"
      by (metis abs_le_square_iff not_le)
    with rest show ?thesis by (simp add: x upwind_grad_sq_Cons)
  next
    case False
    then have z: "(max (T1 - u) 0 / h)\<^sup>2 = 0" by (smt (verit) zero_le_power2)
    have "0 < (max (T1 - u) 0 / h)\<^sup>2 + upwind_grad_sq S T1" using Cons.prems(2) by (simp add: x upwind_grad_sq_Cons)
    then have "0 < upwind_grad_sq S T1" unfolding z by simp
    then have "upwind_grad_sq S T1 < upwind_grad_sq S T2" using Cons.IH Cons.prems(1) by simp
    with le z show ?thesis unfolding x upwind_grad_sq_Cons by linarith
  qed
qed

lemma list_all_le_trans:
  fixes S :: "(real \<times> real) list"
  shows "sorted (map (\<lambda>(u, h). - u) ((ux, hx) # S)) \<Longrightarrow> list_all (\<lambda>(u, h). u \<le> ux) ((ux, hx) # S)"
  by (auto simp: list_all_iff)

lemma consistent_root_exists:
  fixes S :: "(real \<times> real) list"
  defines "A \<equiv> (\<Sum>(u, h)\<leftarrow>S. 1 / h\<^sup>2)" and "B \<equiv> (\<Sum>(u, h)\<leftarrow>S. u / h\<^sup>2)"
    and "C \<equiv> (\<Sum>(u, h)\<leftarrow>S. u\<^sup>2 / h\<^sup>2) - 1"
  assumes "S \<noteq> []" "list_all (\<lambda>(u, h). 0 < h) S" "list_all (\<lambda>(u, h). u \<le> m) S" "upwind_grad_sq S m < 1"
  shows "0 \<le> B\<^sup>2 - A * C \<and> list_all (\<lambda>(u, h). u < (B + sqrt (B\<^sup>2 - A * C)) / A) S"
proof -
  have A: "0 < A" unfolding A_def using assms(4,5) by (rule A_pos)
  have "upwind_grad_sq S m = A * m\<^sup>2 - 2 * B * m + (C + 1)"
    unfolding A_def B_def C_def using upwind_grad_sq_above [OF assms(6)] quad_expand [of m S] by simp
  then have "A * m\<^sup>2 - 2 * B * m + C < 0" using assms(7) by simp
  from negative_between_roots [OF A this]
  have D: "0 < B\<^sup>2 - A * C" and m: "m < (B + sqrt (B\<^sup>2 - A * C)) / A" by auto
  have "list_all (\<lambda>(u, h). u < (B + sqrt (B\<^sup>2 - A * C)) / A) S"
    using assms(6) m by (auto simp: list_all_iff)
  with D show ?thesis by simp
qed

lemma consistent_root_G:
  fixes S :: "(real \<times> real) list"
  defines "A \<equiv> (\<Sum>(u, h)\<leftarrow>S. 1 / h\<^sup>2)" and "B \<equiv> (\<Sum>(u, h)\<leftarrow>S. u / h\<^sup>2)"
    and "C \<equiv> (\<Sum>(u, h)\<leftarrow>S. u\<^sup>2 / h\<^sup>2) - 1"
  assumes "S \<noteq> []" "list_all (\<lambda>(u, h). 0 < h) S" "0 \<le> B\<^sup>2 - A * C"
    and "T = (B - sqrt (B\<^sup>2 - A * C)) / A \<or> T = (B + sqrt (B\<^sup>2 - A * C)) / A"
    and "list_all (\<lambda>(u, h). u < T) S"
  shows "upwind_grad_sq S T = 1"
proof -
  have A: "0 < A" unfolding A_def using assms(4,5) by (rule A_pos)
  have le: "list_all (\<lambda>(u, h). u \<le> T) S" using assms(8) by (auto simp: list_all_iff)
  have "upwind_grad_sq S T = A * T\<^sup>2 - 2 * B * T + (C + 1)"
    unfolding A_def B_def C_def using upwind_grad_sq_above [OF le] quad_expand [of T S] by simp
  moreover have "A * T\<^sup>2 - 2 * B * T + C = 0" using A assms(6,7) by (rule root_is_root)
  ultimately show ?thesis by simp
qed

lemma solve_correct:
  assumes "S \<noteq> []" "list_all (\<lambda>(u, h). 0 < h) S" "sorted (map (\<lambda>(u, h). - u) S)"
  shows "\<exists>T. solve S = Some T \<and> upwind_grad_sq S T = 1"
  using assms
proof (induction S)
  case Nil
  then show ?case by simp
next
  case (Cons x xs)
  obtain ux hx where x: "x = (ux, hx)" by (cases x)
  let ?S = "x # xs"
  define A where "A = (\<Sum>(u, h)\<leftarrow>?S. 1 / h\<^sup>2)"
  define B where "B = (\<Sum>(u, h)\<leftarrow>?S. u / h\<^sup>2)"
  define C where "C = (\<Sum>(u, h)\<leftarrow>?S. u\<^sup>2 / h\<^sup>2) - 1"
  define D where "D = B\<^sup>2 - A * C"
  define R where "R = filter (\<lambda>T. list_all (\<lambda>(u, h). u < T) ?S) [(B - sqrt D) / A, (B + sqrt D) / A]"
  have sv: "solve ?S = (if D < 0 then solve xs else case R of [] \<Rightarrow> solve xs | T # _ \<Rightarrow> Some T)"
    by (simp add: A_def B_def C_def D_def R_def Let_def)
  have le: "list_all (\<lambda>(u, h). u \<le> ux) ?S"
    using Cons.prems(3) unfolding x by (rule list_all_le_trans)
  show ?case
  proof (cases "\<not> D < 0 \<and> R \<noteq> []")
    case True
    then obtain T R' where R: "R = T # R'" by (cases R) auto
    then have "T \<in> set R" by simp
    then have "T \<in> set [(B - sqrt D) / A, (B + sqrt D) / A] \<and> list_all (\<lambda>(u, h). u < T) ?S"
      unfolding R_def by (simp only: set_filter mem_Collect_eq)
    then have T: "T = (B - sqrt D) / A \<or> T = (B + sqrt D) / A"
      and c: "list_all (\<lambda>(u, h). u < T) ?S"
      by auto
    have "upwind_grad_sq ?S T = 1"
      using consistent_root_G [of ?S T] Cons.prems(2) True T c
      unfolding A_def B_def C_def D_def by simp
    moreover have "solve ?S = Some T" using True R sv by simp
    ultimately show ?thesis by blast
  next
    case False
    then have sv': "solve ?S = solve xs" using sv by (auto split: list.splits)
    have no: "\<not> (0 \<le> D \<and> list_all (\<lambda>(u, h). u < (B + sqrt D) / A) ?S)"
    proof
      assume a: "0 \<le> D \<and> list_all (\<lambda>(u, h). u < (B + sqrt D) / A) ?S"
      then have "(B + sqrt D) / A \<in> set [(B - sqrt D) / A, (B + sqrt D) / A] \<and>
          list_all (\<lambda>(u, h). u < (B + sqrt D) / A) ?S" by simp
      then have "(B + sqrt D) / A \<in> set R"
        unfolding R_def by (simp only: set_filter mem_Collect_eq)
      then have "R \<noteq> []" by auto
      with a False show False by simp
    qed
    have ge: "1 \<le> upwind_grad_sq ?S ux"
      using consistent_root_exists [of ?S ux] Cons.prems(2) le no
      unfolding A_def B_def C_def D_def by force
    have Gx: "upwind_grad_sq ?S ux = upwind_grad_sq xs ux" by (simp add: x upwind_grad_sq_Cons)
    have ne: "xs \<noteq> []" using ge Gx by (auto simp: upwind_grad_sq_def)
    have "\<exists>T. solve xs = Some T \<and> upwind_grad_sq xs T = 1"
      using Cons.IH [OF ne] Cons.prems(2,3) by simp
    then obtain T where T: "solve xs = Some T" "upwind_grad_sq xs T = 1" by blast
    have "T \<le> ux"
    proof (rule ccontr)
      assume "\<not> T \<le> ux"
      then have "ux < T" by simp
      then have "upwind_grad_sq xs ux < upwind_grad_sq xs T" using ge Gx by (intro upwind_grad_sq_strict) auto
      with T(2) ge Gx show False by simp
    qed
    then have "upwind_grad_sq ?S T = upwind_grad_sq xs T" by (simp add: x upwind_grad_sq_Cons)
    with T sv' show ?thesis by simp
  qed
qed

lemma upwind_grad_sq_append: "upwind_grad_sq (xs @ ys) T = upwind_grad_sq xs T + upwind_grad_sq ys T"
  by (simp add: upwind_grad_sq_def)

lemma upwind_grad_sq_concat: "upwind_grad_sq (concat (map f as)) T = (\<Sum>a\<leftarrow>as. upwind_grad_sq (f a) T)"
  by (induction as) (simp_all add: upwind_grad_sq_append, simp add: upwind_grad_sq_def)

lemma sum_list_insort_key:
  fixes f :: "'a \<Rightarrow> real"
  shows "sum_list (map f (insort_key k x xs)) = f x + sum_list (map f xs)"
  by (induction xs) auto

lemma upwind_grad_sq_sort_key: "upwind_grad_sq (sort_key k S) T = upwind_grad_sq S T"
  unfolding upwind_grad_sq_def sort_key_def by (induction S) (simp_all add: sum_list_insort_key)

lemma upwind_None: "upwind g v U p a = None \<longleftrightarrow> (\<forall>q \<in> set (nbrs g p a). \<not> U q)"
proof -
  have "upwind g v U p a = None \<longleftrightarrow> filter U (nbrs g p a) = []"
    by (cases "filter U (nbrs g p a)") (simp_all add: upwind_def)
  then show ?thesis by (simp add: filter_empty_conv)
qed

lemma upwind_Some:
  assumes "upwind g v U p a = Some u"
  shows "(\<exists>q \<in> set (nbrs g p a). U q \<and> v q = u) \<and> (\<forall>q \<in> set (nbrs g p a). U q \<longrightarrow> u \<le> v q)"
proof -
  from assms obtain w ws where l: "map v (filter U (nbrs g p a)) = w # ws" and u: "u = fold min ws w"
    by (auto simp: upwind_def split: list.splits)
  have m: "u = Min (set (w # ws))" unfolding u by (rule Min.set_eq_fold [symmetric])
  have "u \<in> set (w # ws)" unfolding m by (rule Min_in) auto
  then have "u \<in> v ` set (filter U (nbrs g p a))" using l by (metis set_map)
  then have 1: "\<exists>q \<in> set (nbrs g p a). U q \<and> v q = u" by auto
  have 2: "\<forall>q \<in> set (nbrs g p a). U q \<longrightarrow> u \<le> v q"
  proof (intro ballI impI)
    fix q assume "q \<in> set (nbrs g p a)" "U q"
    then have "v q \<in> v ` set (filter U (nbrs g p a))" by auto
    then have "v q \<in> set (w # ws)" using l by (metis set_map)
    then show "u \<le> v q" unfolding m by (intro Min_le) auto
  qed
  from 1 2 show ?thesis by simp
qed

lemma stencil_of_axis: "stencil_of g v U p = concat (map (axis_entry g v U p) [0..<length p])"
  by (simp add: stencil_of_def axis_entry_def [abs_def])

lemma upwind_grad_sq_stencil_of: "upwind_grad_sq (stencil_of g v U p) T = (\<Sum>a\<leftarrow>[0..<length p]. upwind_grad_sq (axis_entry g v U p a) T)"
  unfolding stencil_of_axis by (rule upwind_grad_sq_concat)

lemma sq_mono: fixes a b h :: real shows "0 \<le> a \<Longrightarrow> a \<le> b \<Longrightarrow> (a / h)\<^sup>2 \<le> (b / h)\<^sup>2"
  by (simp add: abs_le_square_iff [symmetric] abs_divide divide_right_mono)

lemma axis_entry_mono:
  assumes "\<forall>q \<in> set (nbrs g p a). U q \<longrightarrow> U' q \<and> v' q \<le> v q"
  shows "upwind_grad_sq (axis_entry g v U p a) T \<le> upwind_grad_sq (axis_entry g v' U' p a) T"
proof (cases "upwind g v U p a")
  case None
  then have "upwind_grad_sq (axis_entry g v U p a) T = 0" by (simp add: axis_entry_def upwind_grad_sq_def)
  then show ?thesis using upwind_grad_sq_nonneg [of "axis_entry g v' U' p a" T] by simp
next
  case (Some u)
  from upwind_Some [OF Some] obtain q where q: "q \<in> set (nbrs g p a)" "U q" "v q = u" by blast
  with assms have q': "U' q" "v' q \<le> u" by auto
  then have "upwind g v' U' p a \<noteq> None" using q(1) by (auto simp: upwind_None)
  then obtain u' where u': "upwind g v' U' p a = Some u'" by auto
  from upwind_Some [OF u'] q(1) q' have "u' \<le> u" by fastforce
  then have "(max (T - u) 0 / (g_dx g ! a))\<^sup>2 \<le> (max (T - u') 0 / (g_dx g ! a))\<^sup>2"
    by (intro sq_mono) auto
  then show ?thesis by (simp add: axis_entry_def Some u' upwind_grad_sq_def)
qed

lemma stencil_of_mono:
  assumes "\<forall>a < length p. \<forall>q \<in> set (nbrs g p a). U q \<longrightarrow> U' q \<and> v' q \<le> v q"
  shows "upwind_grad_sq (stencil_of g v U p) T \<le> upwind_grad_sq (stencil_of g v' U' p) T"
  unfolding upwind_grad_sq_stencil_of using assms by (intro sum_list_mono axis_entry_mono) auto

lemma stencil_of_cong:
  assumes "\<forall>a < length p. \<forall>q \<in> set (nbrs g p a). (U q \<longleftrightarrow> U' q) \<and> (U q \<longrightarrow> v' q = v q)"
  shows "stencil_of g v U p = stencil_of g v' U' p"
proof -
  have "\<And>a. a < length p \<Longrightarrow> map v (filter U (nbrs g p a)) = map v' (filter U' (nbrs g p a))"
  proof -
    fix a assume a: "a < length p"
    have "filter U (nbrs g p a) = filter U' (nbrs g p a)"
      using assms a by (intro filter_cong) auto
    moreover have "map v (filter U (nbrs g p a)) = map v' (filter U (nbrs g p a))"
      using assms a by (intro map_cong) auto
    ultimately show "map v (filter U (nbrs g p a)) = map v' (filter U' (nbrs g p a))" by simp
  qed
  then have "\<And>a. a < length p \<Longrightarrow> upwind g v U p a = upwind g v' U' p a"
    by (simp add: upwind_def)
  then show ?thesis unfolding stencil_of_def by (intro arg_cong [where f = concat] map_cong) auto
qed

lemma stencil_of_nonempty:
  "stencil_of g v U p \<noteq> [] \<longleftrightarrow> (\<exists>a < length p. \<exists>q \<in> set (nbrs g p a). U q)"
  by (auto simp: stencil_of_def upwind_None split: option.splits)

lemma stencil_of_pos:
  assumes "\<forall>a < length p. 0 < g_dx g ! a"
  shows "list_all (\<lambda>(u, h). 0 < h) (stencil_of g v U p)"
  using assms by (auto simp: stencil_of_def list_all_iff split: option.splits)

lemma in_grid_length: "in_grid g p \<Longrightarrow> length p = length (g_lo g)"
  by (auto simp: in_grid_def dest: list_all2_lengthD)

lemma nbrs_in_grid: "q \<in> set (nbrs g p a) \<Longrightarrow> in_grid g q"
  by (auto simp: nbrs_def split: if_splits)

lemma nbrs_length: "q \<in> set (nbrs g p a) \<Longrightarrow> length q = length p"
  by (auto simp: nbrs_def split: if_splits)

lemma nbrs_sym:
  assumes "a < length p" "q \<in> set (nbrs g p a)" "in_grid g p"
  shows "p \<in> set (nbrs g q a)"
proof -
  from assms(2) have "q = p[a := p ! a - 1] \<or> q = p[a := p ! a + 1]"
    by (auto simp: nbrs_def split: if_splits)
  then have "p = q[a := q ! a + 1] \<or> p = q[a := q ! a - 1]"
    using assms(1) by auto
  then show ?thesis using assms(3) by (auto simp: nbrs_def)
qed

lemma all_nbrs_iff: "q \<in> set (all_nbrs g p) \<longleftrightarrow> (\<exists>a < length p. q \<in> set (nbrs g p a))"
  by (auto simp: all_nbrs_def)

lemma dx_pos: "dx_ok g \<Longrightarrow> in_grid g p \<Longrightarrow> \<forall>a < length p. 0 < g_dx g ! a"
  by (auto simp: dx_ok_def list_all_length dest: in_grid_length)

lemma local_solve_Some:
  assumes "dx_ok g" "in_grid g p" "stencil g s p \<noteq> []"
  shows "\<exists>T. local_solve g s p = Some T \<and> upwind_grad_sq (stencil g s p) T = 1"
proof -
  let ?S = "sort_key (\<lambda>(u, h). - u) (stencil g s p)"
  have pos: "list_all (\<lambda>(u, h). 0 < h) (stencil g s p)"
    unfolding stencil_def using dx_pos [OF assms(1,2)] by (rule stencil_of_pos)
  have 1: "?S \<noteq> []" using assms(3) by (metis length_0_conv length_sort)
  have 2: "list_all (\<lambda>(u, h). 0 < h) ?S" using pos by (simp add: list_all_iff)
  have 3: "sorted (map (\<lambda>(u, h). - u) ?S)" by (rule sorted_sort_key)
  from solve_correct [OF 1 2 3] show ?thesis
    by (simp add: local_solve_def upwind_grad_sq_sort_key)
qed

lemma local_solve_G:
  assumes "dx_ok g" "in_grid g p" "local_solve g s p = Some T"
  shows "upwind_grad_sq (stencil g s p) T = 1"
proof -
  have "stencil g s p \<noteq> []" using assms(3) by (auto simp: local_solve_def)
  from local_solve_Some [OF assms(1,2) this] assms(3) show ?thesis by simp
qed

lemma axis_causal:
  assumes "\<forall>q \<in> set (nbrs g p a). U q \<and> \<not> K q \<longrightarrow> m \<le> v q"
    and "\<forall>q. K q \<longrightarrow> U q" and "T < m"
  shows "upwind_grad_sq (axis_entry g v U p a) T = upwind_grad_sq (axis_entry g v K p a) T"
proof (cases "upwind g v U p a")
  case None
  then have "upwind g v K p a = None" using assms(2) by (auto simp: upwind_None)
  with None show ?thesis by (simp add: axis_entry_def)
next
  case (Some u)
  from upwind_Some [OF Some] obtain q where q: "q \<in> set (nbrs g p a)" "U q" "v q = u"
    and umin: "\<forall>q \<in> set (nbrs g p a). U q \<longrightarrow> u \<le> v q" by blast
  show ?thesis
  proof (cases "u < T")
    case True
    then have "K q" using assms(1,3) q by force
    then have "upwind g v K p a \<noteq> None" using q(1) by (auto simp: upwind_None)
    then obtain w where w: "upwind g v K p a = Some w" by auto
    from upwind_Some [OF w] obtain q' where q': "q' \<in> set (nbrs g p a)" "K q'" "v q' = w"
      and wmin: "\<forall>q \<in> set (nbrs g p a). K q \<longrightarrow> w \<le> v q" by blast
    have "w \<le> u" using wmin q \<open>K q\<close> by auto
    moreover have "u \<le> w" using umin q' assms(2) by auto
    ultimately show ?thesis by (simp add: axis_entry_def Some w)
  next
    case False
    have "upwind_grad_sq (axis_entry g v K p a) T = 0"
    proof (cases "upwind g v K p a")
      case None
      then show ?thesis by (simp add: axis_entry_def upwind_grad_sq_def)
    next
      case (Some w)
      from upwind_Some [OF Some] obtain q' where q': "q' \<in> set (nbrs g p a)" "K q'" "v q' = w" by blast
      then have "u \<le> w" using umin assms(2) by auto
      with False show ?thesis by (simp add: axis_entry_def Some upwind_grad_sq_def)
    qed
    moreover have "upwind_grad_sq (axis_entry g v U p a) T = 0"
      using False by (simp add: axis_entry_def Some upwind_grad_sq_def)
    ultimately show ?thesis by simp
  qed
qed

lemma stencil_causal:
  assumes "\<forall>a < length p. \<forall>q \<in> set (nbrs g p a). U q \<and> \<not> K q \<longrightarrow> m \<le> v q"
    and "\<forall>q. K q \<longrightarrow> U q" and "T < m"
  shows "upwind_grad_sq (stencil_of g v U p) T = upwind_grad_sq (stencil_of g v K p) T"
proof -
  have "map (\<lambda>a. upwind_grad_sq (axis_entry g v U p a) T) [0..<length p]
      = map (\<lambda>a. upwind_grad_sq (axis_entry g v K p a) T) [0..<length p]"
    using assms by (intro map_cong refl axis_causal) auto
  then show ?thesis unfolding upwind_grad_sq_stencil_of by (rule arg_cong)
qed

lemma known_frame_refl: "known_frame s s"
  by (simp add: known_frame_def)

lemma known_frame_trans: "known_frame s t \<Longrightarrow> known_frame t u \<Longrightarrow> known_frame s u"
  by (auto simp: known_frame_def)

lemma kstencil_frame: "known_frame s s' \<Longrightarrow> kstencil g s' E p = kstencil g s E p"
  unfolding kstencil_def by (rule stencil_of_cong) (auto simp: known_frame_def)

lemma kstencil_le_stencil: "upwind_grad_sq (kstencil g s E p) T \<le> upwind_grad_sq (stencil g s p) T"
  unfolding kstencil_def stencil_def by (rule stencil_of_mono) auto

text \<open>The cases of update_point.\<close>

lemma update_point_cases:
  obtains (same) "update_point g p s = s"
  | (insert) T where "pstate s p = Unvisited" "local_solve g s p = Some T"
      "update_point g p s = s\<lparr>pstate := (pstate s)(p := Trial), tval := (tval s)(p := T), heap := heap s @ [p]\<rparr>"
  | (decrease) T where "pstate s p = Trial" "local_solve g s p = Some T" "T < tval s p"
      "update_point g p s = s\<lparr>tval := (tval s)(p := T)\<rparr>"
proof (cases "pstate s p = Known")
  case True
  then show ?thesis using same by (simp add: update_point_def)
next
  case nk: False
  show ?thesis
  proof (cases "local_solve g s p")
    case None
    then show ?thesis using same nk by (simp add: update_point_def)
  next
    case (Some T)
    show ?thesis
    proof (cases "pstate s p = Unvisited")
      case True
      then show ?thesis using insert [of T] Some nk by (simp add: update_point_def)
    next
      case False
      then have tr: "pstate s p = Trial" using nk by (cases "pstate s p") auto
      show ?thesis
      proof (cases "T < tval s p")
        case True
        then show ?thesis using decrease [of T] Some tr by (simp add: update_point_def)
      next
        case False
        then show ?thesis using same Some tr by (simp add: update_point_def)
      qed
    qed
  qed
qed

lemma update_point_frame: "known_frame s (update_point g p s)"
  by (rule update_point_cases [of g p s]) (auto simp: known_frame_def)

lemma update_point_other:
  "p' \<noteq> p \<Longrightarrow> pstate (update_point g p s) p' = pstate s p' \<and> tval (update_point g p s) p' = tval s p'"
  by (rule update_point_cases [of g p s]) auto

lemma update_point_struct:
  assumes "struct_inv g s" "in_grid g p"
  shows "struct_inv g (update_point g p s)"
proof (rule update_point_cases [of g p s])
  assume "update_point g p s = s"
  with assms show ?thesis by simp
next
  fix T assume a: "pstate s p = Unvisited" "local_solve g s p = Some T"
    "update_point g p s = s\<lparr>pstate := (pstate s)(p := Trial), tval := (tval s)(p := T), heap := heap s @ [p]\<rparr>"
  have "p \<notin> set (heap s)" using assms(1) a(1) by (auto simp: struct_inv_def)
  then show ?thesis using assms a(1) unfolding a(3) by (auto simp: struct_inv_def)
next
  fix T assume a: "pstate s p = Trial" "update_point g p s = s\<lparr>tval := (tval s)(p := T)\<rparr>"
  show ?thesis using assms unfolding a(2) by (auto simp: struct_inv_def)
qed

lemma update_point_known_nbrs_visited: "known_nbrs_visited g E s \<Longrightarrow> known_nbrs_visited g E (update_point g p s)"
  using update_point_frame [of s g p] unfolding known_nbrs_visited_def known_frame_def by blast

text \<open>The value a gpoint holds after its update satisfies the bound for every exclusion.\<close>

lemma update_point_bound:
  assumes "dx_ok g" "in_grid g p" "stencil g s p \<noteq> []"
  shows "pstate (update_point g p s) p \<noteq> Unvisited \<and>
         (pstate (update_point g p s) p = Trial \<longrightarrow>
            upwind_grad_sq (kstencil g (update_point g p s) E p) (tval (update_point g p s) p) \<le> 1)"
proof -
  let ?s' = "update_point g p s"
  have fr: "kstencil g ?s' E p = kstencil g s E p"
    using update_point_frame by (rule kstencil_frame)
  from local_solve_Some [OF assms(1,2,3)] obtain T0 where
    T0: "local_solve g s p = Some T0" "upwind_grad_sq (stencil g s p) T0 = 1" by blast
  have b: "\<And>T. T \<le> T0 \<Longrightarrow> upwind_grad_sq (kstencil g s E p) T \<le> 1"
  proof -
    fix T assume "T \<le> T0"
    then have "upwind_grad_sq (kstencil g s E p) T \<le> upwind_grad_sq (kstencil g s E p) T0" by (rule upwind_grad_sq_mono)
    also have "\<dots> \<le> upwind_grad_sq (stencil g s p) T0" by (rule kstencil_le_stencil)
    finally show "upwind_grad_sq (kstencil g s E p) T \<le> 1" using T0(2) by simp
  qed
  show ?thesis
  proof (rule update_point_cases [of g p s])
    assume same: "update_point g p s = s"
    have "pstate s p \<noteq> Unvisited"
    proof
      assume u: "pstate s p = Unvisited"
      then have "pstate (update_point g p s) p = Trial" using T0(1) by (simp add: update_point_def)
      with same u show False by simp
    qed
    moreover have "pstate s p = Trial \<longrightarrow> upwind_grad_sq (kstencil g s E p) (tval s p) \<le> 1"
    proof
      assume tr: "pstate s p = Trial"
      have "\<not> T0 < tval s p"
      proof
        assume lt: "T0 < tval s p"
        then have "tval (update_point g p s) p = T0" using tr T0(1) by (simp add: update_point_def)
        with same lt show False by simp
      qed
      then show "upwind_grad_sq (kstencil g s E p) (tval s p) \<le> 1" by (intro b) simp
    qed
    ultimately show ?thesis using same by simp
  next
    fix T assume a: "pstate s p = Unvisited" "local_solve g s p = Some T"
      "update_point g p s = s\<lparr>pstate := (pstate s)(p := Trial), tval := (tval s)(p := T), heap := heap s @ [p]\<rparr>"
    have "T = T0" using a(2) T0(1) by simp
    then have "upwind_grad_sq (kstencil g s E p) (tval ?s' p) \<le> 1" using b [of T] unfolding a(3) by simp
    then show ?thesis unfolding fr unfolding a(3) by simp
  next
    fix T assume a: "pstate s p = Trial" "local_solve g s p = Some T" "T < tval s p"
      "update_point g p s = s\<lparr>tval := (tval s)(p := T)\<rparr>"
    have "T = T0" using a(2) T0(1) by simp
    then have "upwind_grad_sq (kstencil g s E p) (tval ?s' p) \<le> 1" using b [of T] unfolding a(4) by simp
    then show ?thesis unfolding fr unfolding a(4) using a(1) by simp
  qed
qed

lemma update_point_trial_consistent:
  assumes "dx_ok g" "in_grid g p" "stencil g s p \<noteq> []" "trial_consistent g E s"
  shows "trial_consistent g E (update_point g p s)"
  unfolding trial_consistent_def
proof (intro allI impI)
  let ?s' = "update_point g p s"
  fix p' assume tr: "pstate ?s' p' = Trial"
  show "upwind_grad_sq (kstencil g ?s' E p') (tval ?s' p') \<le> 1"
  proof (cases "p' = p")
    case True
    from update_point_bound [OF assms(1,2,3)] tr True show ?thesis by simp
  next
    case False
    have "kstencil g ?s' E p' = kstencil g s E p'"
      using update_point_frame by (rule kstencil_frame)
    with update_point_other [OF False, of g s] tr assms(4) show ?thesis by (simp add: trial_consistent_def)
  qed
qed

lemma update_point_nbrs_settled:
  assumes "dx_ok g" "in_grid g p" "stencil g s p \<noteq> []" "nbrs_settled g E D s"
  shows "nbrs_settled g E (insert p D) (update_point g p s)"
  unfolding nbrs_settled_def
proof (intro ballI)
  let ?s' = "update_point g p s"
  fix p' assume d: "p' \<in> insert p D"
  show "pstate ?s' p' \<noteq> Unvisited \<and>
        (pstate ?s' p' = Trial \<longrightarrow> upwind_grad_sq (kstencil g ?s' E p') (tval ?s' p') \<le> 1)"
  proof (cases "p' = p")
    case True
    from update_point_bound [OF assms(1,2,3)] True show ?thesis by simp
  next
    case False
    then have "p' \<in> D" using d by simp
    moreover have "kstencil g ?s' E p' = kstencil g s E p'"
      using update_point_frame by (rule kstencil_frame)
    ultimately show ?thesis
      using update_point_other [OF False, of g s] assms(4) by (simp add: nbrs_settled_def)
  qed
qed

lemma stencil_has_known:
  assumes "a < length p" "x \<in> set (nbrs g p a)" "pstate s x = Known"
  shows "stencil g s p \<noteq> []"
  unfolding stencil_def stencil_of_nonempty using assms by force

lemma nbr_of_known:
  assumes "in_grid g x" "p \<in> set (all_nbrs g x)"
  shows "in_grid g p \<and> (\<exists>a < length p. x \<in> set (nbrs g p a))"
proof -
  from assms(2) obtain a where a: "a < length x" "p \<in> set (nbrs g x a)"
    by (auto simp: all_nbrs_iff)
  have "x \<in> set (nbrs g p a)" using a assms(1) by (rule nbrs_sym)
  moreover have "length p = length x" using a(2) by (rule nbrs_length)
  ultimately show ?thesis using a nbrs_in_grid [OF a(2)] by auto
qed

lemma update_point_trial_above:
  assumes dx: "dx_ok g" and p: "in_grid g p"
    and x: "pstate s x = Known" "tval s x = m"
    and lo: "trial_above m s"
    and k2: "trial_consistent g (\<lambda>q. q = x) s" and k3: "known_nbrs_visited g (\<lambda>q. q = x) s"
  shows "trial_above m (update_point g p s)"
proof -
  have new: "\<And>T. local_solve g s p = Some T \<Longrightarrow> pstate s p \<noteq> Known \<Longrightarrow> m \<le> T"
  proof (rule ccontr)
    fix T assume T: "local_solve g s p = Some T" and nk: "pstate s p \<noteq> Known" and "\<not> m \<le> T"
    then have lt: "T < m" by simp
    have G1: "upwind_grad_sq (stencil g s p) T = 1" using dx p T by (rule local_solve_G)
    have "upwind_grad_sq (stencil_of g (tval s) (\<lambda>q. pstate s q \<noteq> Unvisited) p) T
        = upwind_grad_sq (stencil_of g (tval s) (\<lambda>q. pstate s q = Known \<and> \<not> q = x) p) T"
    proof (rule stencil_causal [where m = m])
      show "\<forall>a<length p. \<forall>q\<in>set (nbrs g p a).
          pstate s q \<noteq> Unvisited \<and> \<not> (pstate s q = Known \<and> \<not> q = x) \<longrightarrow> m \<le> tval s q"
      proof (intro allI impI ballI)
        fix a q assume "pstate s q \<noteq> Unvisited \<and> \<not> (pstate s q = Known \<and> \<not> q = x)"
        then have "q = x \<or> pstate s q = Trial" by (cases "pstate s q") auto
        then show "m \<le> tval s q" using x lo by (auto simp: trial_above_def)
      qed
      show "\<forall>q. pstate s q = Known \<and> \<not> q = x \<longrightarrow> pstate s q \<noteq> Unvisited" by simp
      show "T < m" by (rule lt)
    qed
    then have K1: "upwind_grad_sq (kstencil g s (\<lambda>q. q = x) p) T = 1"
      using G1 by (simp add: stencil_def kstencil_def)
    then have "kstencil g s (\<lambda>q. q = x) p \<noteq> []" by (auto simp: upwind_grad_sq_def)
    then obtain a q where aq: "a < length p" "q \<in> set (nbrs g p a)" "pstate s q = Known" "q \<noteq> x"
      unfolding kstencil_def stencil_of_nonempty by blast
    have "p \<in> set (nbrs g q a)" using aq(1,2) p by (rule nbrs_sym)
    moreover have "a < length q" using aq(1) nbrs_length [OF aq(2)] by simp
    ultimately have "pstate s p \<noteq> Unvisited" using k3 aq(3,4) unfolding known_nbrs_visited_def by blast
    then have tr: "pstate s p = Trial" using nk by (cases "pstate s p") auto
    then have "upwind_grad_sq (kstencil g s (\<lambda>q. q = x) p) (tval s p) \<le> 1" using k2 by (simp add: trial_consistent_def)
    moreover have "T < tval s p" using lt lo tr by (auto simp: trial_above_def)
    then have "upwind_grad_sq (kstencil g s (\<lambda>q. q = x) p) T < upwind_grad_sq (kstencil g s (\<lambda>q. q = x) p) (tval s p)"
      using K1 by (intro upwind_grad_sq_strict) auto
    ultimately show False using K1 by simp
  qed
  show ?thesis
  proof (rule update_point_cases [of g p s])
    assume "update_point g p s = s"
    with lo show ?thesis by simp
  next
    fix T assume a: "pstate s p = Unvisited" "local_solve g s p = Some T"
      "update_point g p s = s\<lparr>pstate := (pstate s)(p := Trial), tval := (tval s)(p := T), heap := heap s @ [p]\<rparr>"
    have "m \<le> T" using new [OF a(2)] a(1) by simp
    then show ?thesis using lo unfolding a(3) by (auto simp: trial_above_def)
  next
    fix T assume a: "pstate s p = Trial" "local_solve g s p = Some T" "T < tval s p"
      "update_point g p s = s\<lparr>tval := (tval s)(p := T)\<rparr>"
    have "m \<le> T" using new [OF a(2)] a(1) by simp
    then show ?thesis using lo unfolding a(4) by (auto simp: trial_above_def)
  qed
qed

text \<open>The loop over the neighbours of a Known gpoint x.\<close>

lemma update_fold:
  assumes dx: "dx_ok g" and x: "in_grid g x" "pstate s x = Known"
    and ps: "set ps \<subseteq> set (all_nbrs g x)"
    and st: "struct_inv g s" and k2: "trial_consistent g E s" and k3: "known_nbrs_visited g E s" and p2: "nbrs_settled g E' D s"
  shows "known_frame s (fold (update_point g) ps s) \<and>
         struct_inv g (fold (update_point g) ps s) \<and>
         trial_consistent g E (fold (update_point g) ps s) \<and> known_nbrs_visited g E (fold (update_point g) ps s) \<and>
         nbrs_settled g E' (D \<union> set ps) (fold (update_point g) ps s) \<and>
         (\<forall>p. p \<notin> set ps \<longrightarrow> pstate (fold (update_point g) ps s) p = pstate s p \<and>
                               tval (fold (update_point g) ps s) p = tval s p) \<and>
         (tval s x = m \<and> trial_above m s \<and> E = (\<lambda>q. q = x) \<longrightarrow> trial_above m (fold (update_point g) ps s))"
  using ps x(2) st k2 k3 p2
proof (induction ps arbitrary: s D)
  case Nil
  then show ?case by (simp add: known_frame_refl)
next
  case (Cons p ps)
  let ?s1 = "update_point g p s"
  have pin: "p \<in> set (all_nbrs g x)" using Cons.prems(1) by simp
  from nbr_of_known [OF x(1) pin] obtain a where
    p: "in_grid g p" and a: "a < length p" "x \<in> set (nbrs g p a)" by blast
  have ne: "stencil g s p \<noteq> []" using a Cons.prems(2) by (rule stencil_has_known)
  have fr1: "known_frame s ?s1" by (rule update_point_frame)
  have x1: "pstate ?s1 x = Known" using fr1 Cons.prems(2) by (simp add: known_frame_def)
  have st1: "struct_inv g ?s1" using Cons.prems(3) p by (rule update_point_struct)
  have k21: "trial_consistent g E ?s1" using dx p ne Cons.prems(4) by (rule update_point_trial_consistent)
  have k31: "known_nbrs_visited g E ?s1" using Cons.prems(5) by (rule update_point_known_nbrs_visited)
  have p21: "nbrs_settled g E' (insert p D) ?s1" using dx p ne Cons.prems(6) by (rule update_point_nbrs_settled)
  have sub: "set ps \<subseteq> set (all_nbrs g x)" using Cons.prems(1) by simp
  note IH = Cons.IH [OF sub x1 st1 k21 k31 p21]
  have tx: "tval ?s1 x = tval s x" using fr1 Cons.prems(2) by (simp add: known_frame_def)
  have lo1: "tval s x = m \<and> trial_above m s \<and> E = (\<lambda>q. q = x) \<longrightarrow> trial_above m ?s1"
    using update_point_trial_above [OF dx p Cons.prems(2)] Cons.prems(4,5) by auto
  show ?case
  proof (intro conjI)
    show "known_frame s (fold (update_point g) (p # ps) s)"
      using fr1 IH by (auto intro: known_frame_trans)
    show "\<forall>q. q \<notin> set (p # ps) \<longrightarrow> pstate (fold (update_point g) (p # ps) s) q = pstate s q \<and>
                               tval (fold (update_point g) (p # ps) s) q = tval s q"
      using IH update_point_other [of _ p g s] by auto
    show "tval s x = m \<and> trial_above m s \<and> E = (\<lambda>q. q = x) \<longrightarrow> trial_above m (fold (update_point g) (p # ps) s)"
      using IH lo1 tx by auto
    show "nbrs_settled g E' (D \<union> set (p # ps)) (fold (update_point g) (p # ps) s)"
      using IH by simp
  qed (use IH in simp_all)
qed

lemma update_neighbors_inv:
  assumes dx: "dx_ok g" and x: "in_grid g x" "pstate s x = Known"
    and st: "struct_inv g s" and k2: "trial_consistent g E s" and k3: "known_nbrs_visited g E s"
  shows "known_frame s (update_neighbors g x s) \<and>
         struct_inv g (update_neighbors g x s) \<and>
         trial_consistent g (\<lambda>q. E q \<and> q \<noteq> x) (update_neighbors g x s) \<and>
         known_nbrs_visited g (\<lambda>q. E q \<and> q \<noteq> x) (update_neighbors g x s) \<and>
         (tval s x = m \<and> trial_above m s \<and> E = (\<lambda>q. q = x) \<longrightarrow> trial_above m (update_neighbors g x s))"
proof -
  let ?s' = "update_neighbors g x s"
  let ?E' = "\<lambda>q. E q \<and> q \<noteq> x"
  have p20: "nbrs_settled g ?E' {} s" by (simp add: nbrs_settled_def)
  from update_fold [OF dx x subset_refl st k2 k3 p20, of m]
  have fr: "known_frame s ?s'" and st': "struct_inv g ?s'" and k2E: "trial_consistent g E ?s'"
    and k3E: "known_nbrs_visited g E ?s'" and p2: "nbrs_settled g ?E' (set (all_nbrs g x)) ?s'"
    and lo: "tval s x = m \<and> trial_above m s \<and> E = (\<lambda>q. q = x) \<longrightarrow> trial_above m ?s'"
    unfolding update_neighbors_def by simp_all
  have x': "pstate ?s' x = Known" using fr x(2) by (simp add: known_frame_def)
  have k3': "known_nbrs_visited g ?E' ?s'"
    unfolding known_nbrs_visited_def
  proof (intro allI impI)
    fix q a p assume h: "pstate ?s' q = Known \<and> \<not> (E q \<and> q \<noteq> x) \<and> a < length q \<and> p \<in> set (nbrs g q a)"
    show "pstate ?s' p \<noteq> Unvisited"
    proof (cases "q = x")
      case True
      then have "p \<in> set (all_nbrs g x)" using h by (auto simp: all_nbrs_iff)
      then show ?thesis using p2 by (simp add: nbrs_settled_def)
    next
      case False
      then have "\<not> E q" using h by simp
      then show ?thesis using k3E h unfolding known_nbrs_visited_def by blast
    qed
  qed
  have k2': "trial_consistent g ?E' ?s'"
    unfolding trial_consistent_def
  proof (intro allI impI)
    fix p assume tr: "pstate ?s' p = Trial"
    show "upwind_grad_sq (kstencil g ?s' ?E' p) (tval ?s' p) \<le> 1"
    proof (cases "p \<in> set (all_nbrs g x)")
      case True
      then show ?thesis using p2 tr by (simp add: nbrs_settled_def)
    next
      case False
      have pg: "in_grid g p" using st' tr by (auto simp: struct_inv_def)
      have nx: "\<forall>a < length p. x \<notin> set (nbrs g p a)"
      proof (intro allI impI notI)
        fix a assume a: "a < length p" "x \<in> set (nbrs g p a)"
        then have "p \<in> set (nbrs g x a)" using pg by (rule nbrs_sym)
        moreover have "a < length x" using a nbrs_length [OF a(2)] by simp
        ultimately show False using False by (auto simp: all_nbrs_iff)
      qed
      have "kstencil g ?s' ?E' p = kstencil g ?s' E p"
        unfolding kstencil_def
      proof (rule stencil_of_cong, intro allI impI ballI)
        fix a q assume "a < length p" "q \<in> set (nbrs g p a)"
        then have "q \<noteq> x" using nx by auto
        then show "((pstate ?s' q = Known \<and> \<not> (E q \<and> q \<noteq> x)) = (pstate ?s' q = Known \<and> \<not> E q)) \<and>
          (pstate ?s' q = Known \<and> \<not> (E q \<and> q \<noteq> x) \<longrightarrow> tval ?s' q = tval ?s' q)" by simp
      qed
      then show ?thesis using k2E tr by (simp add: trial_consistent_def)
    qed
  qed
  from fr st' k2' k3' lo show ?thesis by simp
qed

lemma freeze_min_inv:
  assumes dx: "dx_ok g" and inv: "fmm_inv g s" and ne: "heap s \<noteq> []"
  shows "fmm_inv g (freeze_min g s)"
proof -
  define x where "x = arg_min_list (tval s) (heap s)"
  define m where "m = tval s x"
  define s1 where "s1 = s\<lparr>pstate := (pstate s)(x := Known), heap := remove1 x (heap s),
              frozen := frozen s @ [(x, tval s x)]\<rparr>"
  let ?s' = "update_neighbors g x s1"
  have fm: "freeze_min g s = ?s'" by (simp add: freeze_min_def x_def s1_def Let_def)
  from inv have st: "struct_inv g s" and k2: "trial_consistent g (\<lambda>q. False) s" and k3: "known_nbrs_visited g (\<lambda>q. False) s"
    and so: "sorted (map snd (frozen s))" and fl: "\<forall>v \<in> snd ` set (frozen s). trial_above v s"
    by (simp_all add: fmm_inv_def)
  have xin: "x \<in> set (heap s)" unfolding x_def using ne by (rule arg_min_list_in)
  have xmin: "\<forall>p \<in> set (heap s). m \<le> tval s p"
  proof
    fix p assume "p \<in> set (heap s)"
    then have "Min (tval s ` set (heap s)) \<le> tval s p" by (intro Min_le) auto
    then show "m \<le> tval s p" unfolding m_def x_def using f_arg_min_list_f [OF ne, of "tval s"] by simp
  qed
  have xtr: "pstate s x = Trial" using st xin by (auto simp: struct_inv_def)
  have xg: "in_grid g x" using st xin by (auto simp: struct_inv_def)
  have x1: "pstate s1 x = Known" by (simp add: s1_def)
  have t1: "tval s1 x = m" by (simp add: s1_def m_def)
  have st1: "struct_inv g s1"
    using st xtr unfolding struct_inv_def s1_def by (auto simp: set_remove1_eq)
  have lo1: "trial_above m s1"
    unfolding trial_above_def
  proof (intro allI impI)
    fix p assume "pstate s1 p = Trial"
    then have "pstate s p = Trial" by (auto simp: s1_def split: if_splits)
    then have "p \<in> set (heap s)" using st by (auto simp: struct_inv_def)
    then show "m \<le> tval s1 p" using xmin by (simp add: s1_def)
  qed
  have ks: "\<And>p. kstencil g s1 (\<lambda>q. q = x) p = kstencil g s (\<lambda>q. False) p"
    unfolding kstencil_def
    by (rule stencil_of_cong) (use xtr in \<open>auto simp: s1_def\<close>)
  have k21: "trial_consistent g (\<lambda>q. q = x) s1"
    unfolding trial_consistent_def
  proof (intro allI impI)
    fix p assume "pstate s1 p = Trial"
    then have "pstate s p = Trial" by (auto simp: s1_def split: if_splits)
    then have "upwind_grad_sq (kstencil g s (\<lambda>q. False) p) (tval s p) \<le> 1" using k2 by (simp add: trial_consistent_def)
    then show "upwind_grad_sq (kstencil g s1 (\<lambda>q. q = x) p) (tval s1 p) \<le> 1"
      unfolding ks by (simp add: s1_def)
  qed
  have k31: "known_nbrs_visited g (\<lambda>q. q = x) s1"
    unfolding known_nbrs_visited_def
  proof (intro allI impI)
    fix q a p assume h: "pstate s1 q = Known \<and> \<not> q = x \<and> a < length q \<and> p \<in> set (nbrs g q a)"
    then have "pstate s q = Known" by (auto simp: s1_def)
    then have "pstate s p \<noteq> Unvisited" using k3 h unfolding known_nbrs_visited_def by blast
    then show "pstate s1 p \<noteq> Unvisited" by (auto simp: s1_def)
  qed
  from update_neighbors_inv [OF dx xg x1 st1 k21 k31, of m]
  have fr: "known_frame s1 ?s'" and st': "struct_inv g ?s'"
    and k2': "trial_consistent g (\<lambda>q. q = x \<and> q \<noteq> x) ?s'" and k3': "known_nbrs_visited g (\<lambda>q. q = x \<and> q \<noteq> x) ?s'"
    and lo': "trial_above m ?s'"
    using t1 lo1 by simp_all
  have fz: "frozen ?s' = frozen s @ [(x, m)]"
    using fr by (simp add: known_frame_def s1_def m_def)
  have old: "\<forall>v \<in> snd ` set (frozen s). v \<le> m"
    using fl xtr unfolding trial_above_def m_def by blast
  have so': "sorted (map snd (frozen ?s'))"
    unfolding fz using so old by (auto simp: sorted_append)
  have fl': "\<forall>v \<in> snd ` set (frozen ?s'). trial_above v ?s'"
  proof
    fix v assume "v \<in> snd ` set (frozen ?s')"
    then have "v \<le> m" using old unfolding fz by auto
    then show "trial_above v ?s'" using lo' unfolding trial_above_def by fastforce
  qed
  have e: "(\<lambda>q. q = x \<and> q \<noteq> x) = (\<lambda>q. False)" by auto
  show ?thesis
    unfolding fm fmm_inv_def using st' k2' k3' so' fl' unfolding e by simp
qed

lemma main_loop_inv:
  assumes "dx_ok g" "fmm_inv g s"
  shows "fmm_inv g (main_loop g cutoff n s)"
  using assms(2)
proof (induction n arbitrary: s)
  case 0
  then show ?case by simp
next
  case (Suc n)
  show ?case
  proof (cases "heap s = [] \<or> (case cutoff of None \<Rightarrow> False
               | Some c \<Rightarrow> c < tval s (arg_min_list (tval s) (heap s)))")
    case True
    then have "main_loop g cutoff (Suc n) s = s" by auto
    with Suc.prems show ?thesis by simp
  next
    case False
    then have "main_loop g cutoff (Suc n) s = main_loop g cutoff n (freeze_min g s)" by auto
    moreover have "fmm_inv g (freeze_min g s)"
      using assms(1) Suc.prems False by (intro freeze_min_inv) auto
    ultimately show ?thesis using Suc.IH by simp
  qed
qed

lemma init_fold:
  assumes dx: "dx_ok g"
    and qs: "\<forall>q \<in> set qs. in_grid g q \<and> pstate s q = Known"
    and st: "struct_inv g s" and k2: "trial_consistent g E s" and k3: "known_nbrs_visited g E s"
  shows "struct_inv g (fold (update_neighbors g) qs s) \<and>
         trial_consistent g (\<lambda>q. E q \<and> q \<notin> set qs) (fold (update_neighbors g) qs s) \<and>
         known_nbrs_visited g (\<lambda>q. E q \<and> q \<notin> set qs) (fold (update_neighbors g) qs s) \<and>
         frozen (fold (update_neighbors g) qs s) = frozen s"
  using qs st k2 k3
proof (induction qs arbitrary: s E)
  case Nil
  then show ?case by simp
next
  case (Cons q qs)
  let ?s1 = "update_neighbors g q s"
  have q: "in_grid g q" "pstate s q = Known" using Cons.prems(1) by auto
  from update_neighbors_inv [OF dx q Cons.prems(2,3,4), of 0]
  have fr: "known_frame s ?s1" and st1: "struct_inv g ?s1"
    and k21: "trial_consistent g (\<lambda>r. E r \<and> r \<noteq> q) ?s1" and k31: "known_nbrs_visited g (\<lambda>r. E r \<and> r \<noteq> q) ?s1"
    by simp_all
  have qs1: "\<forall>r \<in> set qs. in_grid g r \<and> pstate ?s1 r = Known"
    using Cons.prems(1) fr by (auto simp: known_frame_def)
  have e: "(\<lambda>r. (E r \<and> r \<noteq> q) \<and> r \<notin> set qs) = (\<lambda>r. E r \<and> r \<notin> set (q # qs))" by auto
  from Cons.IH [OF qs1 st1 k21 k31] fr show ?case
    unfolding e by (simp add: known_frame_def)
qed

lemma fmm_init_inv:
  assumes "dx_ok g" "list_all (in_grid g) (map fst known0)"
  shows "fmm_inv g (fmm_init g known0)"
proof -
  define s0 where "s0 = \<lparr>pstate = (\<lambda>p. if p \<in> fst ` set known0 then Known else Unvisited),
        tval = (\<lambda>p. case map_of known0 p of None \<Rightarrow> 0 | Some v \<Rightarrow> v),
        heap = [], frozen = []\<rparr>"
  let ?E = "\<lambda>q. q \<in> set (map fst known0)"
  have qs: "\<forall>q \<in> set (map fst known0). in_grid g q \<and> pstate s0 q = Known"
    using assms(2) by (auto simp: s0_def list_all_iff)
  have st: "struct_inv g s0" by (simp add: struct_inv_def s0_def)
  have k2: "trial_consistent g ?E s0" by (simp add: trial_consistent_def s0_def)
  have k3: "known_nbrs_visited g ?E s0" by (auto simp: known_nbrs_visited_def s0_def split: if_splits)
  from init_fold [OF assms(1) qs st k2 k3]
  show ?thesis
    unfolding fmm_inv_def fmm_init_def s0_def [symmetric] by (simp add: s0_def)
qed

section \<open>Evaluation of the examples\<close>

lemmas example_defs = const_field_def scalar_def spacing3_def mxGetPr_at_def double_to_int_def
  int_range_def INT_MIN_def INT_MAX_def gb_of_dims_def shrink_def box_bounds_def box_dims_def
  mxFree_def mxArray_ok_def mxCreateNumericArray_def nv_inputs_def

lemma nv_example_run:
  "normal_velocity_rhs DOUBLE_PRECISION 1 (nv_inputs mxDOUBLE_CLASS [3,3,3] [3,3,3] [3,3,3] [3,3,3] 1)
    = Inr \<lparr>classID = mxDOUBLE_CLASS, dims = [3, 3, 3], pr = (replicate 27 0)[13 := - 2]\<rparr>"
  by (simp add: normal_velocity_rhs_def COMPUTE_NORMAL_VELOCITY_TERM_FOR_LSE_RHS_3D_def Let_def
      nv_checked_inputs_def example_defs zero_out_replicate center_gb_def shift_axis_def
      LSM3D_ADD_NORMAL_VEL_TERM_TO_LSE_RHS_def cells_def nv_cell_def f77_read_def f77_write_def
      godunov_norm_def)

lemma local_example_run:
  "LSM3D_ADD_ADVECTION_TERM_TO_LSE_RHS_LOCAL
      [replicate 27 1, replicate 27 1, replicate 27 1] box3
      [replicate 27 2, replicate 27 2, replicate 27 2] box3 local_example (replicate 27 0)
    = Inr ((replicate 27 0)[13 := - 6])"
  by (simp add: LSM3D_ADD_ADVECTION_TERM_TO_LSE_RHS_LOCAL_def add_term_to_lse_rhs_local_def
      local_example_def local_step_def point_def index_read_def f77_read_def box3_def
      advection_term_def upto.simps word_le_nat_alt)

subsection \<open>The fast marching example\<close>

lemma sqrt_25: "sqrt 25 = 5"
  using real_sqrt_abs [of 5] by simp

lemma solve_ex: "solve [(0, 1 / 3), (0, 1 / 4)] = Some (1 / 5)"
  by (simp add: Let_def sqrt_25 power2_eq_square)

lemma in_grid2: "in_grid grid2 [i, j] \<longleftrightarrow> 0 \<le> i \<and> i \<le> 1 \<and> 0 \<le> j \<and> j \<le> 1"
  by (auto simp: in_grid_def grid2_def)

lemma all_nbrs2:
  "all_nbrs grid2 [i, j] = filter (in_grid grid2) [[i - 1, j], [i + 1, j], [i, j - 1], [i, j + 1]]"
  by (simp add: all_nbrs_def nbrs_def numeral_2_eq_2)

lemma stencil2:
  "stencil_of grid2 v U [i, j] =
     (case map v (filter U (filter (in_grid grid2) [[i - 1, j], [i + 1, j]])) of
        [] \<Rightarrow> [] | w # ws \<Rightarrow> [(fold min ws w, 1 / 3)]) @
     (case map v (filter U (filter (in_grid grid2) [[i, j - 1], [i, j + 1]])) of
        [] \<Rightarrow> [] | w # ws \<Rightarrow> [(fold min ws w, 1 / 4)])"
  by (simp add: stencil_of_def upwind_def nbrs_def numeral_2_eq_2 grid2_def split: list.splits)

lemma local_solve2:
  assumes "pstate s [1, 0] = Known" "pstate s [0, 1] = Known" "tval s [1, 0] = 0" "tval s [0, 1] = 0"
  shows "local_solve grid2 s [0, 0] = Some (1 / 5)" and "local_solve grid2 s [1, 1] = Some (1 / 5)"
  using assms by (simp_all add: local_solve_def stencil_def stencil2 in_grid2 solve_ex del: solve.simps)

lemma init2:
  "fmm_init grid2 known2 =
     \<lparr>pstate = (\<lambda>p. if p \<in> fst ` set known2 then Known else Unvisited)
                 ([0, 0] := Trial, [1, 1] := Trial),
      tval = (\<lambda>p. case map_of known2 p of None \<Rightarrow> 0 | Some v \<Rightarrow> v)
                 ([0, 0] := 1 / 5, [1, 1] := 1 / 5),
      heap = [[0, 0], [1, 1]], frozen = []\<rparr>"
  by (simp add: fmm_init_def known2_def update_neighbors_def all_nbrs2 in_grid2
      update_point_def local_solve2)

lemma run2:
  "frozen (fast_marching grid2 None known2 2) = [([0, 0], 1 / 5), ([1, 1], 1 / 5)]"
  unfolding fast_marching_def init2
  by (simp add: numeral_2_eq_2 freeze_min_def update_neighbors_def
      all_nbrs2 in_grid2 update_point_def known2_def Let_def)

subsection \<open>The conversion to \<open>float\<close>\<close>

lemma float_exponent_1: "float_exponent 1 = 0"
  by (simp add: float_exponent_def pow2_def eval_nat_numeral)

lemma float_exponent_2: "float_exponent 2 = 1"
  by (simp add: float_exponent_def pow2_def eval_nat_numeral)

lemma float_exponent_3: "float_exponent 3 = 1"
  by (simp add: float_exponent_def pow2_def eval_nat_numeral)

lemma float_exponent_tenth: "float_exponent (1 / 10) = - 4"
  by (simp add: float_exponent_def pow2_def eval_nat_numeral)

lemma float_exponent_above_1: "float_exponent (1073741825 / 1073741824) = 0"
  by (simp add: float_exponent_def pow2_def eval_nat_numeral)

lemma float_exponent_tie: "float_exponent (16777217 / 16777216) = 0"
  by (simp add: float_exponent_def pow2_def eval_nat_numeral)

lemma float_exponent_tie_up: "float_exponent (16777219 / 16777216) = 0"
  by (simp add: float_exponent_def pow2_def eval_nat_numeral)

lemma float_exponent_huge: "float_exponent (2 ^ 128) = 127"
  by (simp add: float_exponent_def pow2_def eval_nat_numeral)

lemma double_to_float_1: "double_to_float 1 = Finite 1"
  by (simp add: double_to_float_def float_exponent_1 pow2_def round_half_even_def FLT_MAX_def
      Let_def)

lemma double_to_float_2: "double_to_float 2 = Finite 2"
  by (simp add: double_to_float_def float_exponent_2 pow2_def round_half_even_def FLT_MAX_def
      Let_def)

lemma double_to_float_3: "double_to_float 3 = Finite 3"
  by (simp add: double_to_float_def float_exponent_3 pow2_def round_half_even_def FLT_MAX_def
      Let_def)

text \<open>
  A value between two binary32 numbers is rounded to the nearer one: 1 + 1/2^30 down to
  1, and 0.1 up to 13421773/2^27. Half way between two of them the one with the even
  significand is taken, and 2^128 is beyond the largest binary32 number.
\<close>

lemma double_to_float_above_1: "double_to_float (1073741825 / 1073741824) = Finite 1"
  by (simp add: double_to_float_def float_exponent_above_1 pow2_def round_half_even_def
      FLT_MAX_def Let_def)

lemma double_to_float_tenth: "double_to_float (1 / 10) = Finite (13421773 / 2 ^ 27)"
  by (simp add: double_to_float_def float_exponent_tenth pow2_def round_half_even_def
      FLT_MAX_def Let_def)

lemma double_to_float_tie: "double_to_float (16777217 / 16777216) = Finite 1"
  by (simp add: double_to_float_def float_exponent_tie pow2_def round_half_even_def
      FLT_MAX_def Let_def)

lemma double_to_float_tie_up:
  "double_to_float (16777219 / 16777216) = Finite (4194305 / 4194304)"
  by (simp add: double_to_float_def float_exponent_tie_up pow2_def round_half_even_def
      FLT_MAX_def Let_def)

lemma double_to_float_huge: "double_to_float (2 ^ 128) = PlusInfinity"
  by (simp add: double_to_float_def float_exponent_huge [simplified] pow2_def
      round_half_even_def FLT_MAX_def Let_def)

lemma double_to_float_minus_huge: "double_to_float (- (2 ^ 128)) = MinusInfinity"
  by (simp add: double_to_float_def float_exponent_huge [simplified] pow2_def
      round_half_even_def FLT_MAX_def Let_def)

section \<open>The claims\<close>

text \<open>
  Claim C1, as stated: a call of a derivative operation whose ghostcell width is below the
  minimum of its order (2 for third-order ENO) fails with an input-validation error.
  \<open>HJ_ENO3_3D\<close> does not: on a 5 x 5 x 5 double array with ghostcell width 1 it returns
  normally, having invoked the kernel on the fillbox 2..4 of each axis.
\<close>

theorem HJ_ENO3_3D_accepts_ghostcell_width_1:
  "list_all mxArray_ok [const_field mxDOUBLE_CLASS [5, 5, 5] 0, scalar 1, spacing3 1 1 1] \<and>
   status (HJ_ENO3_3D DOUBLE_PRECISION alloc_ok 6
      [const_field mxDOUBLE_CLASS [5, 5, 5] 0, scalar 1, spacing3 1 1 1]) = None \<and>
   map_option eno3_fb (kernel_call (HJ_ENO3_3D DOUBLE_PRECISION alloc_ok 6
      [const_field mxDOUBLE_CLASS [5, 5, 5] 0, scalar 1, spacing3 1 1 1]))
     = Some \<lparr>ilo = 2, ihi = 4, jlo = 2, jhi = 4, klo = 2, khi = 4\<rparr>"
  by (simp add: HJ_ENO3_3D_def Let_def example_defs)

text \<open>
  Claim C1, amended: \<open>HJ_ENO3_3D\<close> does not validate the ghostcell width. Its input
  checks are the argument counts, the number of dimensions of phi and the precision of
  phi. A call that passes them, whose ghostcell width and spacings can be read and whose
  scratch allocations succeed, returns normally for every ghostcell width \<open>g\<close>, and
  the kernel is invoked with the fillbox obtained by moving each bound of the ghostbox
  inwards by \<open>g\<close>.
\<close>

theorem HJ_ENO3_3D_no_ghostcell_width_check:
  assumes "length prhs = 3" and "nlhs \<le> 6"
    and "length (dims (prhs ! 0)) = 3" and "classID (prhs ! 0) = LSMLIB_REAL_class prec"
    and "mxGetPr_at (prhs ! 1) 0 = Some w" and "double_to_int w = Some g"
    and "mxGetPr_at (prhs ! 2) 0 = Some dX0" and "mxGetPr_at (prhs ! 2) 1 = Some dX1"
    and "mxGetPr_at (prhs ! 2) 2 = Some dX2"
    and "mxMalloc D1" and "mxMalloc D2" and "mxMalloc D3"
    and "list_all int_range (box_bounds (shrink (gb_of_dims (dims (prhs ! 0))) g))"
  shows "status (HJ_ENO3_3D prec mxMalloc nlhs prhs) = None \<and>
         map_option eno3_fb (kernel_call (HJ_ENO3_3D prec mxMalloc nlhs prhs))
           = Some (shrink (gb_of_dims (dims (prhs ! 0))) g)"
  using assms by (simp add: HJ_ENO3_3D_def Let_def)

theorem HJ_ENO3_3D_no_ghostcell_width_check_witness:
  "status (HJ_ENO3_3D DOUBLE_PRECISION alloc_ok 6
      [const_field mxDOUBLE_CLASS [5, 5, 5] 0, scalar 0, spacing3 1 1 1]) = None \<and>
   map_option eno3_fb (kernel_call (HJ_ENO3_3D DOUBLE_PRECISION alloc_ok 6
      [const_field mxDOUBLE_CLASS [5, 5, 5] 0, scalar 0, spacing3 1 1 1]))
     = Some \<lparr>ilo = 1, ihi = 5, jlo = 1, jhi = 5, klo = 1, khi = 5\<rparr>"
  using HJ_ENO3_3D_no_ghostcell_width_check
      [of "[const_field mxDOUBLE_CLASS [5, 5, 5] 0, scalar 0, spacing3 1 1 1]" 6
        DOUBLE_PRECISION 0 0 1 1 1 alloc_ok]
  by (simp add: example_defs)




text \<open>
  Claim C3: when the normal-velocity operation succeeds, the returned \<open>lse_rhs\<close> has the
  dimensions of phi, and every cell of its ghostbox that lies outside the fillbox (the
  ghostbox moved inwards by the ghostcell width) holds exactly zero: the wrapper zeroes
  the whole array and the kernel writes inside the fillbox only.
\<close>

theorem lse_rhs_zero_outside_fillbox:
  assumes "normal_velocity_rhs prec nlhs prhs = Inr LSE_RHS"
    and "Option.bind (mxGetPr_at (prhs ! 1) 0) double_to_int = Some g"
    and "in_box (gb_of_dims (dims (prhs ! 0))) c"
    and "\<not> in_box (shrink (gb_of_dims (dims (prhs ! 0))) g) c"
  shows "dims LSE_RHS = dims (prhs ! 0) \<and>
         pr LSE_RHS ! offset (gb_of_dims (dims (prhs ! 0))) c = 0"
proof -
  let ?r = "COMPUTE_NORMAL_VELOCITY_TERM_FOR_LSE_RHS_3D prec nlhs prhs"
  let ?gb = "gb_of_dims (dims (prhs ! 0))"
  let ?n = "prod_list (dims (prhs ! 0))"
  let ?z = "zero_out ?n 0 (replicate (nat ?n) 0)"
  have st: "status ?r = None"
    using assms(1) by (cases "status ?r") (auto simp: normal_velocity_rhs_def Let_def)
  note pre = NV_status_None [OF st]
  from pre assms(2) have fbok: "list_all int_range (box_bounds (shrink ?gb g))" by auto
  have run: "?r = \<lparr>status = None,
      plhs = [\<lparr>classID = LSMLIB_REAL_class prec, dims = dims (prhs ! 0), pr = ?z\<rparr>],
      scratch_live = [],
      kernel_call = Some
        \<lparr>nv_lse_rhs_gb = ?gb,
         nv_phi_plus = [pr (prhs ! 3), pr (prhs ! 4), pr (prhs ! 5)],
         nv_grad_phi_plus_gb = center_gb ?gb (gb_of_dims (dims (prhs ! 3))),
         nv_phi_minus = [pr (prhs ! 6), pr (prhs ! 7), pr (prhs ! 8)],
         nv_grad_phi_minus_gb = center_gb ?gb (gb_of_dims (dims (prhs ! 3))),
         nv_vel_n = pr (prhs ! 2),
         nv_vel_gb = center_gb ?gb (gb_of_dims (dims (prhs ! 2))),
         nv_fb = shrink ?gb g\<rparr>\<rparr>" (is "_ = \<lparr>status = _, plhs = _, scratch_live = _, kernel_call = Some ?a\<rparr>")
    using pre assms(2) fbok by (intro NV_run) auto
  obtain d where k: "LSM3D_ADD_NORMAL_VEL_TERM_TO_LSE_RHS ?a ?z = Inr d"
    and out: "LSE_RHS = \<lparr>classID = LSMLIB_REAL_class prec, dims = dims (prhs ! 0), pr = d\<rparr>"
    using assms(1) unfolding normal_velocity_rhs_def run Let_def
    by (auto split: sum.splits)
  have fr: "length d = length ?z \<and> d ! offset ?gb c = ?z ! offset ?gb c"
    using nv_kernel_frame [OF k] assms(3,4) by simp
  have d3: "box_dims ?gb = dims (prhs ! 0)" using pre by (simp add: box_dims_gb_of_dims)
  have ob: "int (offset ?gb c) < ?n" using offset_bound [OF assms(3)] d3 by simp
  have "?z ! offset ?gb c = 0"
    using ob by (intro zero_out_zero) auto
  with fr out show ?thesis by simp
qed

theorem lse_rhs_zero_outside_fillbox_witness:
  "normal_velocity_rhs DOUBLE_PRECISION 1
      (nv_inputs mxDOUBLE_CLASS [3, 3, 3] [3, 3, 3] [3, 3, 3] [3, 3, 3] 1)
     = Inr \<lparr>classID = mxDOUBLE_CLASS, dims = [3, 3, 3], pr = (replicate 27 0)[13 := - 2]\<rparr> \<and>
   in_box (gb_of_dims [3, 3, 3]) (1, 1, 1) \<and>
   \<not> in_box (shrink (gb_of_dims [3, 3, 3]) 1) (1, 1, 1) \<and>
   (replicate 27 0)[13 := - 2] ! offset (gb_of_dims [3, 3, 3]) (1, 1, 1) = (0::real)"
proof -
  let ?prhs = "nv_inputs mxDOUBLE_CLASS [3, 3, 3] [3, 3, 3] [3, 3, 3] [3, 3, 3] 1"
  have g: "Option.bind (mxGetPr_at (?prhs ! 1) 0) double_to_int = Some 1"
    by (simp add: example_defs)
  have d: "dims (?prhs ! 0) = [3, 3, 3]"
    by (simp add: nv_inputs_def const_field_def)
  have i: "in_box (gb_of_dims (dims (?prhs ! 0))) (1, 1, 1)"
    unfolding d by (simp add: gb_of_dims_def)
  have o: "\<not> in_box (shrink (gb_of_dims (dims (?prhs ! 0))) 1) (1, 1, 1)"
    unfolding d by (simp add: gb_of_dims_def shrink_def)
  have z: "(replicate 27 0)[13 := - 2] ! offset (gb_of_dims [3, 3, 3]) (1, 1, 1) = (0::real)"
    using lse_rhs_zero_outside_fillbox [OF nv_example_run g i o] unfolding d by simp
  show ?thesis
    using nv_example_run i o z unfolding d by simp
qed

text \<open>
  Claim C4, as stated: a call whose input arrays have mismatched extents fails with an
  error and computes nothing. The normal-velocity wrapper does not: with 5 x 5 x 5 plus
  derivatives and 4 x 4 x 4 minus derivatives it returns normally, and passes the kernel
  the bounds 1..5 for the minus derivatives too.
\<close>

theorem mismatched_gradient_extents_accepted:
  "dims (nv_inputs mxDOUBLE_CLASS [5, 5, 5] [5, 5, 5] [5, 5, 5] [4, 4, 4] 1 ! 3) = [5, 5, 5] \<and>
   dims (nv_inputs mxDOUBLE_CLASS [5, 5, 5] [5, 5, 5] [5, 5, 5] [4, 4, 4] 1 ! 6) = [4, 4, 4] \<and>
   list_all mxArray_ok (nv_inputs mxDOUBLE_CLASS [5, 5, 5] [5, 5, 5] [5, 5, 5] [4, 4, 4] 1) \<and>
   status (COMPUTE_NORMAL_VELOCITY_TERM_FOR_LSE_RHS_3D DOUBLE_PRECISION 1
      (nv_inputs mxDOUBLE_CLASS [5, 5, 5] [5, 5, 5] [5, 5, 5] [4, 4, 4] 1)) = None \<and>
   map_option nv_grad_phi_minus_gb (kernel_call (COMPUTE_NORMAL_VELOCITY_TERM_FOR_LSE_RHS_3D DOUBLE_PRECISION 1
      (nv_inputs mxDOUBLE_CLASS [5, 5, 5] [5, 5, 5] [5, 5, 5] [4, 4, 4] 1)))
     = Some \<lparr>ilo = 1, ihi = 5, jlo = 1, jhi = 5, klo = 1, khi = 5\<rparr>"
  by (simp add: COMPUTE_NORMAL_VELOCITY_TERM_FOR_LSE_RHS_3D_def Let_def nv_checked_inputs_def
      example_defs center_gb_def shift_axis_def)

text \<open>
  Claim C4, amended: the normal-velocity operation does not compare the extents of its
  input arrays. Its only shape check is that phi is three-dimensional, which fails with
  an error before anything is allocated or computed. Once the argument counts and the
  precisions are right and phi is three-dimensional, the call reaches the kernel whatever
  the extents of the velocity and derivative arrays are (only the dimensions of phi, of
  the velocity and of \<open>phi_x_plus\<close> are read, and the latter two need three entries).
\<close>

theorem normal_velocity_shape_checks:
  assumes "length prhs = 9" and "nlhs \<le> 1"
    and "\<forall>n \<in> {0, 2, 3, 4, 5, 6, 7, 8}. classID (prhs ! n) = LSMLIB_REAL_class prec"
  shows "(length (dims (prhs ! 0)) \<noteq> 3 \<longrightarrow>
           COMPUTE_NORMAL_VELOCITY_TERM_FOR_LSE_RHS_3D prec nlhs prhs
             = fail (mexErrMsgTxt ''phi should be a 3 dimensional array.'')) \<and>
         (length (dims (prhs ! 0)) = 3 \<and>
          3 \<le> length (dims (prhs ! 2)) \<and> 3 \<le> length (dims (prhs ! 3)) \<and>
          int_range (dims (prhs ! 0) ! 0 * dims (prhs ! 0) ! 1) \<and>
          int_range (dims (prhs ! 0) ! 0 * dims (prhs ! 0) ! 1 * dims (prhs ! 0) ! 2) \<and>
          Option.bind (mxGetPr_at (prhs ! 1) 0) double_to_int = Some g \<and>
          list_all int_range (box_bounds (shrink (gb_of_dims (dims (prhs ! 0))) g)) \<longrightarrow>
           status (COMPUTE_NORMAL_VELOCITY_TERM_FOR_LSE_RHS_3D prec nlhs prhs) = None \<and>
           kernel_call (COMPUTE_NORMAL_VELOCITY_TERM_FOR_LSE_RHS_3D prec nlhs prhs) \<noteq> None)"
proof (intro conjI impI)
  have f: "find (\<lambda>(n, name). classID (prhs ! n) \<noteq> LSMLIB_REAL_class prec) nv_checked_inputs = None"
    using assms(3) by (simp only: nv_find_None)
  assume "length (dims (prhs ! 0)) \<noteq> 3"
  then show "COMPUTE_NORMAL_VELOCITY_TERM_FOR_LSE_RHS_3D prec nlhs prhs
             = fail (mexErrMsgTxt ''phi should be a 3 dimensional array.'')"
    using assms(1,2) unfolding COMPUTE_NORMAL_VELOCITY_TERM_FOR_LSE_RHS_3D_def f Let_def by simp
next
  assume a: "length (dims (prhs ! 0)) = 3 \<and>
          3 \<le> length (dims (prhs ! 2)) \<and> 3 \<le> length (dims (prhs ! 3)) \<and>
          int_range (dims (prhs ! 0) ! 0 * dims (prhs ! 0) ! 1) \<and>
          int_range (dims (prhs ! 0) ! 0 * dims (prhs ! 0) ! 1 * dims (prhs ! 0) ! 2) \<and>
          Option.bind (mxGetPr_at (prhs ! 1) 0) double_to_int = Some g \<and>
          list_all int_range (box_bounds (shrink (gb_of_dims (dims (prhs ! 0))) g))"
  note r = NV_run [OF assms(1) assms(2) assms(3), of g]
  show "status (COMPUTE_NORMAL_VELOCITY_TERM_FOR_LSE_RHS_3D prec nlhs prhs) = None"
    using r a by simp
  show "kernel_call (COMPUTE_NORMAL_VELOCITY_TERM_FOR_LSE_RHS_3D prec nlhs prhs) \<noteq> None"
    using r a by simp
qed

theorem normal_velocity_shape_checks_witness:
  "COMPUTE_NORMAL_VELOCITY_TERM_FOR_LSE_RHS_3D DOUBLE_PRECISION 1
      (nv_inputs mxDOUBLE_CLASS [5, 5] [5, 5, 5] [5, 5, 5] [4, 4, 4] 1)
     = fail (mexErrMsgTxt ''phi should be a 3 dimensional array.'') \<and>
   status (COMPUTE_NORMAL_VELOCITY_TERM_FOR_LSE_RHS_3D DOUBLE_PRECISION 1
      (nv_inputs mxDOUBLE_CLASS [5, 5, 5] [3, 3, 3] [5, 5, 5] [4, 4, 4] 1)) = None"
  using normal_velocity_shape_checks [of "nv_inputs mxDOUBLE_CLASS [5, 5] [5, 5, 5] [5, 5, 5] [4, 4, 4] 1" 1
      DOUBLE_PRECISION 1]
    normal_velocity_shape_checks [of "nv_inputs mxDOUBLE_CLASS [5, 5, 5] [3, 3, 3] [5, 5, 5] [4, 4, 4] 1" 1
      DOUBLE_PRECISION 1]
  by (simp add: example_defs)

text \<open>
  Claim C5, as stated: the shifted bounds centre the smaller ghostbox symmetrically in the
  ghostbox of phi. With phi of extent 6 and a velocity of extent 3 along the first axis
  the shift is 1 and the velocity gets the bounds 2..4: one cell of margin below, two
  above.
\<close>

theorem odd_extent_difference_not_centered:
  "map_option nv_vel_gb (kernel_call (COMPUTE_NORMAL_VELOCITY_TERM_FOR_LSE_RHS_3D DOUBLE_PRECISION 1
      (nv_inputs mxDOUBLE_CLASS [6, 4, 4] [3, 4, 4] [6, 4, 4] [6, 4, 4] 1)))
     = Some \<lparr>ilo = 2, ihi = 4, jlo = 1, jhi = 4, klo = 1, khi = 4\<rparr> \<and>
   \<not> symmetric_in (gb_of_dims [6, 4, 4]) \<lparr>ilo = 2, ihi = 4, jlo = 1, jhi = 4, klo = 1, khi = 4\<rparr>"
  by (simp add: COMPUTE_NORMAL_VELOCITY_TERM_FOR_LSE_RHS_3D_def Let_def nv_checked_inputs_def
      example_defs center_gb_def shift_axis_def c_div_def symmetric_in_def)

text \<open>
  Claim C5, amended: whenever the kernel is called, the bounds of the velocity array and
  of the derivative arrays are those of an array indexed from 1 with both bounds of each
  axis moved by (phi extent - array extent)/2, the division truncating towards zero (the
  derivative arrays all get the bounds computed from \<open>phi_x_plus\<close>). The shifted
  ghostbox sits symmetrically in the ghostbox of phi exactly when the difference of the
  extents is even on every axis.
\<close>

theorem ghostbox_shift:
  assumes "kernel_call (COMPUTE_NORMAL_VELOCITY_TERM_FOR_LSE_RHS_3D prec nlhs prhs) = Some a"
  shows "nv_vel_gb a = shifted_gb (dims (prhs ! 0)) (dims (prhs ! 2)) \<and>
         nv_grad_phi_plus_gb a = shifted_gb (dims (prhs ! 0)) (dims (prhs ! 3)) \<and>
         nv_grad_phi_minus_gb a = shifted_gb (dims (prhs ! 0)) (dims (prhs ! 3)) \<and>
         (symmetric_in (gb_of_dims (dims (prhs ! 0))) (nv_vel_gb a) \<longleftrightarrow>
            even (dims (prhs ! 0) ! 0 - dims (prhs ! 2) ! 0) \<and>
            even (dims (prhs ! 0) ! 1 - dims (prhs ! 2) ! 1) \<and>
            even (dims (prhs ! 0) ! 2 - dims (prhs ! 2) ! 2)) \<and>
         (symmetric_in (gb_of_dims (dims (prhs ! 0))) (nv_grad_phi_plus_gb a) \<longleftrightarrow>
            even (dims (prhs ! 0) ! 0 - dims (prhs ! 3) ! 0) \<and>
            even (dims (prhs ! 0) ! 1 - dims (prhs ! 3) ! 1) \<and>
            even (dims (prhs ! 0) ! 2 - dims (prhs ! 3) ! 2))"
proof -
  have st: "status (COMPUTE_NORMAL_VELOCITY_TERM_FOR_LSE_RHS_3D prec nlhs prhs) = None"
    using assms by (rule NV_kernel_call_status)
  from NV_status_None [OF st] obtain g where
    pre: "length prhs = 9" "nlhs \<le> 1"
      "\<forall>n \<in> {0, 2, 3, 4, 5, 6, 7, 8}. classID (prhs ! n) = LSMLIB_REAL_class prec"
      "length (dims (prhs ! 0)) = 3" "3 \<le> length (dims (prhs ! 2))" "3 \<le> length (dims (prhs ! 3))"
      "int_range (dims (prhs ! 0) ! 0 * dims (prhs ! 0) ! 1)"
      "int_range (dims (prhs ! 0) ! 0 * dims (prhs ! 0) ! 1 * dims (prhs ! 0) ! 2)"
      "Option.bind (mxGetPr_at (prhs ! 1) 0) double_to_int = Some g"
      "list_all int_range (box_bounds (shrink (gb_of_dims (dims (prhs ! 0))) g))"
    by blast
  have v: "nv_vel_gb a = shifted_gb (dims (prhs ! 0)) (dims (prhs ! 2))"
    and p: "nv_grad_phi_plus_gb a = shifted_gb (dims (prhs ! 0)) (dims (prhs ! 3))"
    and m: "nv_grad_phi_minus_gb a = shifted_gb (dims (prhs ! 0)) (dims (prhs ! 3))"
    using assms unfolding NV_run [OF pre] by (auto simp: center_gb_shifted)
  show ?thesis
    unfolding v p m symmetric_shifted by simp
qed

theorem ghostbox_shift_witness:
  "map_option nv_vel_gb (kernel_call (COMPUTE_NORMAL_VELOCITY_TERM_FOR_LSE_RHS_3D DOUBLE_PRECISION 1
      (nv_inputs mxDOUBLE_CLASS [7, 4, 4] [3, 4, 4] [7, 4, 4] [7, 4, 4] 1)))
     = Some \<lparr>ilo = 3, ihi = 5, jlo = 1, jhi = 4, klo = 1, khi = 4\<rparr> \<and>
   symmetric_in (gb_of_dims [7, 4, 4]) \<lparr>ilo = 3, ihi = 5, jlo = 1, jhi = 4, klo = 1, khi = 4\<rparr>"
proof -
  let ?prhs = "nv_inputs mxDOUBLE_CLASS [7, 4, 4] [3, 4, 4] [7, 4, 4] [7, 4, 4] 1"
  obtain a where a: "kernel_call (COMPUTE_NORMAL_VELOCITY_TERM_FOR_LSE_RHS_3D DOUBLE_PRECISION 1 ?prhs) = Some a"
    by (simp add: COMPUTE_NORMAL_VELOCITY_TERM_FOR_LSE_RHS_3D_def Let_def nv_checked_inputs_def
      example_defs)
  have v: "nv_vel_gb a = \<lparr>ilo = 3, ihi = 5, jlo = 1, jhi = 4, klo = 1, khi = 4\<rparr>"
    using ghostbox_shift [OF a]
    by (simp add: nv_inputs_def const_field_def shifted_gb_def c_div_def)
  have s: "symmetric_in (gb_of_dims [7, 4, 4]) \<lparr>ilo = 3, ihi = 5, jlo = 1, jhi = 4, klo = 1, khi = 4\<rparr>"
    by (simp add: symmetric_in_def gb_of_dims_def)
  show ?thesis using a v s by simp
qed

text \<open>
  Claim C6: a narrow-band routine that returns has changed only cells that are listed in
  the index arrays between \<open>nlo_index\<close> and \<open>nhi_index\<close> and whose narrow-band tag is at
  most \<open>mark_fb\<close>. Every other cell of the output ghostbox keeps its value, and so is
  zero if it was zero before. This holds for every term the routine accumulates.
\<close>

theorem narrow_band_frame:
  assumes "add_term_to_lse_rhs_local contrib a lse_rhs = Inr out"
    and "in_box (lse_rhs_gb a) c"
    and "\<not> (\<exists>l tag. nlo_index a \<le> l \<and> l \<le> nhi_index a \<and> point a l = Some c \<and>
                 f77_read (narrow_band a) (nb_gb a) c = Some tag \<and> tag \<le> mark_fb a)"
  shows "length out = length lse_rhs \<and>
         out ! offset (lse_rhs_gb a) c = lse_rhs ! offset (lse_rhs_gb a) c \<and>
         (lse_rhs ! offset (lse_rhs_gb a) c = 0 \<longrightarrow> out ! offset (lse_rhs_gb a) c = 0)"
proof -
  let ?G = "\<lambda>l. \<exists>c tag. point a l = Some c \<and> in_box (lse_rhs_gb a) c \<and>
                f77_read (narrow_band a) (nb_gb a) c = Some tag \<and> tag \<le> mark_fb a"
  let ?W = "\<lambda>l. offset (lse_rhs_gb a) (the (point a l))"
  have fr: "length out = length lse_rhs \<and>
     (\<forall>n. (\<forall>l \<in> set [nlo_index a..nhi_index a]. ?G l \<longrightarrow> n \<noteq> ?W l) \<longrightarrow> out ! n = lse_rhs ! n)"
    using assms(1) unfolding add_term_to_lse_rhs_local_def
    by (rule for_each_frame) (rule local_step_frame)
  have "\<forall>l \<in> set [nlo_index a..nhi_index a]. ?G l \<longrightarrow> offset (lse_rhs_gb a) c \<noteq> ?W l"
  proof (intro ballI impI)
    fix l assume l: "l \<in> set [nlo_index a..nhi_index a]" and g: "?G l"
    from g obtain c' tag where c': "point a l = Some c'" "in_box (lse_rhs_gb a) c'"
      "f77_read (narrow_band a) (nb_gb a) c' = Some tag" "tag \<le> mark_fb a" by blast
    have "c' \<noteq> c" using assms(3) l c' by auto
    then show "offset (lse_rhs_gb a) c \<noteq> ?W l"
      using offset_inj [OF assms(2) c'(2)] c'(1) by auto
  qed
  with fr show ?thesis by simp
qed

theorem narrow_band_frame_witness:
  "LSM3D_ADD_ADVECTION_TERM_TO_LSE_RHS_LOCAL
      [replicate 27 1, replicate 27 1, replicate 27 1] box3
      [replicate 27 2, replicate 27 2, replicate 27 2] box3 local_example (replicate 27 0)
    = Inr ((replicate 27 0)[13 := - 6]) \<and>
   point local_example 1 = Some (1, 1, 1) \<and>
   f77_read (narrow_band local_example) (nb_gb local_example) (1, 1, 1) = Some 5 \<and>
   ((replicate 27 0)[13 := - 6]) ! offset (lse_rhs_gb local_example) (1, 1, 1) = (0::real)"
proof -
  let ?contrib = "advection_term [replicate 27 1, replicate 27 1, replicate 27 1] box3
      [replicate 27 2, replicate 27 2, replicate 27 2] box3"
  have run: "add_term_to_lse_rhs_local ?contrib local_example (replicate 27 0)
      = Inr ((replicate 27 0)[13 := - 6])"
    using local_example_run by (simp add: LSM3D_ADD_ADVECTION_TERM_TO_LSE_RHS_LOCAL_def)
  have inb: "in_box (lse_rhs_gb local_example) (1, 1, 1)"
    by (simp add: local_example_def box3_def)
  have tag: "f77_read (narrow_band local_example) (nb_gb local_example) (1, 1, 1) = Some 5"
    by (simp add: local_example_def box3_def f77_read_def)
  have no: "\<not> (\<exists>l tag. nlo_index local_example \<le> l \<and> l \<le> nhi_index local_example \<and>
                 point local_example l = Some (1, 1, 1) \<and>
                 f77_read (narrow_band local_example) (nb_gb local_example) (1, 1, 1) = Some tag \<and>
                 tag \<le> mark_fb local_example)"
    unfolding tag by (simp add: local_example_def word_le_nat_alt)
  have pt: "point local_example 1 = Some (1, 1, 1)"
    by (simp add: local_example_def point_def index_read_def)
  show ?thesis
  proof (intro conjI)
    show "(replicate 27 0)[13 := - 6] ! offset (lse_rhs_gb local_example) (1, 1, 1) = (0::real)"
      using narrow_band_frame [OF run inb no] by (simp add: local_example_def box3_def)
  qed (rule local_example_run pt tag)+
qed

text \<open>
  Claim C7: for every run of the fast marching engine and every pair of points frozen at
  steps i < j of the main loop, the value frozen at step i is at most the value frozen at
  step j. The engine is the one modelled from section 4.2: any grid with positive
  spacings, any initial \<open>Known\<close> points inside the grid with any values, with or without
  a cutoff, after any number \<open>n\<close> of steps of the main loop; \<open>frozen\<close> lists the frozen
  points with their values in the order of the steps.
\<close>

theorem fast_marching_monotone:
  assumes "length (g_dx g) = length (g_lo g)" "list_all (\<lambda>h. 0 < h) (g_dx g)"
    and "list_all (in_grid g) (map fst known0)"
    and "i < j" "j < length (frozen (fast_marching g cutoff known0 n))"
  shows "snd (frozen (fast_marching g cutoff known0 n) ! i)
       \<le> snd (frozen (fast_marching g cutoff known0 n) ! j)"
proof -
  have dx: "dx_ok g" using assms(1,2) by (simp add: dx_ok_def)
  have "fmm_inv g (fast_marching g cutoff known0 n)"
    unfolding fast_marching_def using dx fmm_init_inv [OF dx assms(3)] by (rule main_loop_inv)
  then have "sorted (map snd (frozen (fast_marching g cutoff known0 n)))"
    by (simp add: fmm_inv_def)
  then show ?thesis using assms(4,5) by (simp add: sorted_iff_nth_mono_less)
qed

theorem fast_marching_monotone_witness:
  "length (g_dx grid2) = length (g_lo grid2) \<and> list_all (\<lambda>h. 0 < h) (g_dx grid2) \<and>
   list_all (in_grid grid2) (map fst known2) \<and>
   (0::nat) < 1 \<and> 1 < length (frozen (fast_marching grid2 None known2 2)) \<and>
   frozen (fast_marching grid2 None known2 2) = [([0, 0], 1 / 5), ([1, 1], 1 / 5)] \<and>
   snd (frozen (fast_marching grid2 None known2 2) ! 0)
     \<le> snd (frozen (fast_marching grid2 None known2 2) ! 1)"
proof -
  have a: "length (g_dx grid2) = length (g_lo grid2)" by (simp add: grid2_def)
  have b: "list_all (\<lambda>h. 0 < h) (g_dx grid2)" by (simp add: grid2_def)
  have c: "list_all (in_grid grid2) (map fst known2)" by (simp add: known2_def in_grid2)
  have d: "1 < length (frozen (fast_marching grid2 None known2 2))" by (simp add: run2)
  show ?thesis
    using fast_marching_monotone [OF a b c zero_less_one d] a b c d run2 by simp
qed

text \<open>
  Claim C8: when the allocation of one of the scratch arrays D1, D2, D3 fails,
  \<open>HJ_ENO3_3D\<close> ends with an error, no scratch array is left allocated, no output array
  has been created and the kernel has not been called. If the call got as far as the
  allocations, the error is the allocation message.
\<close>

theorem scratch_allocation_failure:
  assumes "\<not> (mxMalloc D1 \<and> mxMalloc D2 \<and> mxMalloc D3)"
  shows "status (HJ_ENO3_3D prec mxMalloc nlhs prhs) \<noteq> None \<and>
         plhs (HJ_ENO3_3D prec mxMalloc nlhs prhs) = [] \<and>
         scratch_live (HJ_ENO3_3D prec mxMalloc nlhs prhs) = [] \<and>
         kernel_call (HJ_ENO3_3D prec mxMalloc nlhs prhs) = None \<and>
         (length prhs = 3 \<and> nlhs \<le> 6 \<and> length (dims (prhs ! 0)) = 3 \<and>
          classID (prhs ! 0) = LSMLIB_REAL_class prec \<and>
          Option.bind (mxGetPr_at (prhs ! 1) 0) double_to_int \<noteq> None \<and>
          mxGetPr_at (prhs ! 2) 0 \<noteq> None \<and> mxGetPr_at (prhs ! 2) 1 \<noteq> None \<and>
          mxGetPr_at (prhs ! 2) 2 \<noteq> None \<longrightarrow>
          status (HJ_ENO3_3D prec mxMalloc nlhs prhs) =
            Some (mexErrMsgTxt ''Unable to allocate memory for scratch data...aborting....''))"
proof -
  have live: "fold mxFree (filter mxMalloc [D1, D2, D3]) (filter mxMalloc [D1, D2, D3]) = []"
    by (rule free_allocated)
  show ?thesis
    using assms live
    by (auto simp: HJ_ENO3_3D_def Let_def fail_def split: option.splits)
qed

theorem scratch_allocation_failure_witness:
  "\<not> (alloc_D3_fails D1 \<and> alloc_D3_fails D2 \<and> alloc_D3_fails D3) \<and>
   HJ_ENO3_3D DOUBLE_PRECISION alloc_D3_fails 6
      [const_field mxDOUBLE_CLASS [5, 5, 5] 0, scalar 2, spacing3 1 1 1]
     = fail (mexErrMsgTxt ''Unable to allocate memory for scratch data...aborting....'')"
  using scratch_allocation_failure [of alloc_D3_fails DOUBLE_PRECISION 6
      "[const_field mxDOUBLE_CLASS [5, 5, 5] 0, scalar 2, spacing3 1 1 1]"]
  by (simp add: example_defs fail_def)



text \<open>
  Claim C10: when \<open>HJ_ENO3_3D\<close> calls the kernel, the spacings are passed in the order
  dX[1], dX[0], dX[2], each converted to \<open>LSMLIB_REAL\<close> (the value itself in the double
  build, the nearest \<open>float\<close> in the single build), and the output pointers in the order
  y, x, z for the plus and for the minus derivatives. So each slot of the kernel holds the
  plus and the minus output of one coordinate axis together with the spacing of that axis.
\<close>

theorem meshgrid_order:
  assumes "kernel_call (HJ_ENO3_3D prec mxMalloc nlhs prhs) = Some c"
  shows "eno3_spacing c =
           [double_to_LSMLIB_REAL prec (pr (prhs ! 2) ! 1),
            double_to_LSMLIB_REAL prec (pr (prhs ! 2) ! 0),
            double_to_LSMLIB_REAL prec (pr (prhs ! 2) ! 2)] \<and>
         eno3_plus_out c = [PHI_Y_PLUS, PHI_X_PLUS, PHI_Z_PLUS] \<and>
         eno3_minus_out c = [PHI_Y_MINUS, PHI_X_MINUS, PHI_Z_MINUS] \<and>
         zip (eno3_plus_out c) (zip (eno3_minus_out c) (eno3_spacing c)) =
           [(PHI_Y_PLUS, PHI_Y_MINUS, double_to_LSMLIB_REAL prec (pr (prhs ! 2) ! 1)),
            (PHI_X_PLUS, PHI_X_MINUS, double_to_LSMLIB_REAL prec (pr (prhs ! 2) ! 0)),
            (PHI_Z_PLUS, PHI_Z_MINUS, double_to_LSMLIB_REAL prec (pr (prhs ! 2) ! 2))]"
proof -
  have st: "status (HJ_ENO3_3D prec mxMalloc nlhs prhs) = None"
    using assms by (rule HJ_kernel_call_status)
  from HJ_status_None [OF st] obtain g dX0 dX1 dX2 where
    pre: "length prhs = 3" "nlhs \<le> 6" "length (dims (prhs ! 0)) = 3"
      "classID (prhs ! 0) = LSMLIB_REAL_class prec"
      "Option.bind (mxGetPr_at (prhs ! 1) 0) double_to_int = Some g"
      "mxGetPr_at (prhs ! 2) 0 = Some dX0" "mxGetPr_at (prhs ! 2) 1 = Some dX1"
      "mxGetPr_at (prhs ! 2) 2 = Some dX2"
      "mxMalloc D1" "mxMalloc D2" "mxMalloc D3"
      "list_all int_range (box_bounds (shrink (gb_of_dims (dims (prhs ! 0))) g))"
    by blast
  have dx: "dX0 = pr (prhs ! 2) ! 0" "dX1 = pr (prhs ! 2) ! 1" "dX2 = pr (prhs ! 2) ! 2"
    using pre(6-8) by (auto simp: mxGetPr_at_def split: if_splits)
  show ?thesis
    using assms unfolding HJ_run [OF pre] dx by auto
qed

theorem meshgrid_order_witness:
  "map_option eno3_spacing (kernel_call (HJ_ENO3_3D DOUBLE_PRECISION alloc_ok 6
      [const_field mxDOUBLE_CLASS [5, 6, 7] 0, scalar 2, spacing3 (1/10) (2/10) (3/10)]))
    = Some [Finite (2/10), Finite (1/10), Finite (3/10)] \<and>
   map_option eno3_spacing (kernel_call (HJ_ENO3_3D SINGLE_PRECISION alloc_ok 6
      [const_field mxSINGLE_CLASS [5, 6, 7] 0, scalar 2, spacing3 (1 + 1 / 2 ^ 30) 2 3]))
    = Some [Finite 2, Finite 1, Finite 3]"
proof -
  let ?prhs = "[const_field mxDOUBLE_CLASS [5, 6, 7] 0, scalar 2, spacing3 (1/10) (2/10) (3/10)]"
  let ?prhs' = "[const_field mxSINGLE_CLASS [5, 6, 7] 0, scalar 2, spacing3 (1 + 1 / 2 ^ 30) 2 3]"
  obtain c where c: "kernel_call (HJ_ENO3_3D DOUBLE_PRECISION alloc_ok 6 ?prhs) = Some c"
    by (simp add: HJ_ENO3_3D_def Let_def example_defs)
  obtain c' where c': "kernel_call (HJ_ENO3_3D SINGLE_PRECISION alloc_ok 6 ?prhs') = Some c'"
    by (simp add: HJ_ENO3_3D_def Let_def example_defs)
  show ?thesis
    using meshgrid_order [OF c] c meshgrid_order [OF c'] c'
    by (simp add: spacing3_def double_to_float_1 double_to_float_2 double_to_float_3
        double_to_float_above_1)
qed

end
